theory Spec2Isabelle
  imports Main "HOL-Library.Sublist"
begin

section \<open>Strings\<close>

text \<open>
  \<^verbatim>\<open>s.startsWith(p)\<close> and \<^verbatim>\<open>s.includes(p)\<close> of the source, on strings as character lists;
  \<^verbatim>\<open>s.substring(0, n)\<close> is \<open>take n s\<close>.
\<close>

definition startsWith :: "string \<Rightarrow> string \<Rightarrow> bool" where
  "startsWith s p = (take (length p) s = p)"

fun includesStr :: "string \<Rightarrow> string \<Rightarrow> bool" where
  "includesStr [] p = (p = [])"
| "includesStr (c # cs) p = (startsWith (c # cs) p \<or> includesStr cs p)"

section \<open>The program model handed to the analyzers\<close>

text \<open>
  The scene, its files, classes, methods, control-flow graphs and statements are built by
  the external front end; the analyzers only read them. A statement is what the analyzers
  read of it: its rendered text (\<^verbatim>\<open>stmt.toString()\<close>), the rendered texts of its expressions
  (\<^verbatim>\<open>stmt.getExprs()\<close>, each through \<^verbatim>\<open>toString()\<close>) and its line number. A control-flow
  graph is its list of basic blocks, each a list of statements; \<^verbatim>\<open>cfg.getStmts()\<close> is their
  concatenation. Classes are objects referred to by reference (\<^verbatim>\<open>getSuperClass()\<close> returns a
  class or null), so they live in a store indexed by class identifiers.
\<close>

record ark_stmt =
  stmtText :: string
  stmtExprs :: "string list"
  stmtLineNo :: int

type_synonym ark_cfg = "ark_stmt list list"

definition getStmts :: "ark_cfg \<Rightarrow> ark_stmt list" where
  "getStmts cfg = concat cfg"

record ark_method =
  methodName :: string
  methodSignature :: string
  methodLineCol :: "int option"
  methodCfg :: "ark_cfg option"

type_synonym cid = nat

record ark_class =
  className :: string
  superClassName :: string
  superClass :: "cid option"
  decorators :: "string list"
  classMethods :: "ark_method list"

record ark_file =
  fileName :: string
  fileClasses :: "cid list"

record scene =
  sceneFiles :: "ark_file list"
  sceneClass :: "cid \<Rightarrow> ark_class"

definition hasDecorator :: "ark_class \<Rightarrow> string \<Rightarrow> bool" where
  "hasDecorator cls kind = (kind \<in> set (decorators cls))"

text \<open>
  The external undefined-value solver is consumed only for not throwing: constructing the
  checker and the solver and calling \<^verbatim>\<open>solve()\<close> either returns or throws.
\<close>

datatype error = SolverError | CallGraphError | TypeError

type_synonym solver = "ark_stmt \<Rightarrow> ark_method \<Rightarrow> error + unit"

section \<open>Lifecycle records, issues and data-flow records\<close>

datatype lifecycle_type = ABILITY | COMPONENT

record lifecycle_method =
  lmMethod :: ark_method
  lmType :: lifecycle_type
  lmPhase :: string
  lmClassName :: string
  lmFilePath :: string

record lifecycle_method_info_v2 = lifecycle_method +
  lmLineNumber :: "int option"

record lifecycle_method_info = lifecycle_method +
  lmLineNo :: int
  lmHasImplementation :: bool

datatype severity = High | Medium | Low

record undefined_issue =
  uiMethod :: string
  uiLine :: int
  uiDescription :: string
  uiSeverity :: severity

record undefined_issue_v3 = undefined_issue +
  uiClassName :: string

record data_flow_info =
  dfFrom :: string
  dfTo :: string
  dfVariable :: string
  dfLine :: int
  dfCallChain :: "string list"

text \<open>The key \<^verbatim>\<open>`${className}.${phase}`\<close> of a lifecycle method.\<close>

definition methodKey :: "'a lifecycle_method_scheme \<Rightarrow> string" where
  "methodKey lm = lmClassName lm @ ''.'' @ lmPhase lm"

section \<open>The statement-level risk heuristics (versions 1 and 3)\<close>

definition containsUndefinedRisk :: "string \<Rightarrow> bool" where
  "containsUndefinedRisk stmtStr =
     (includesStr stmtStr ''undefined'' \<or> includesStr stmtStr ''null'' \<or>
      (includesStr stmtStr ''fieldload'' \<and> includesStr stmtStr ''?''))"

definition assessSeverity :: "string \<Rightarrow> severity" where
  "assessSeverity stmtStr =
     (if includesStr stmtStr ''undefined'' then High
      else if includesStr stmtStr ''null'' then Medium
      else Low)"

text \<open>The constant prefix of an issue's description, a non-ASCII literal, as its UTF-8 bytes.\<close>

definition riskDescriptionPrefix :: string where
  "riskDescriptionPrefix =
     [CHR 0xE5, CHR 0x8F, CHR 0xAF, CHR 0xE8, CHR 0x83, CHR 0xBD, CHR 0xE7, CHR 0x9A, CHR 0x84,
      CHR 0xE6, CHR 0x9C, CHR 0xAA, CHR 0xE5, CHR 0xAE, CHR 0x9A, CHR 0xE4, CHR 0xB9, CHR 0x89,
      CHR 0xE5, CHR 0x8F, CHR 0x98, CHR 0xE9, CHR 0x87, CHR 0x8F, CHR 0xE8, CHR 0xAE, CHR 0xBF,
      CHR 0xE9, CHR 0x97, CHR 0xAE, CHR 0x3A, CHR 0x20]"

text \<open>
  The loop state of \<^verbatim>\<open>analyzeUndefinedVariables\<close>: its two local counters and the
  analyzer's issue list, which the loop appends to.
\<close>

record 'i uv_loop =
  uvAnalyzedCount :: nat
  uvIssueCount :: nat
  uvIssues :: "'i list"

subsection \<open>Version 1\<close>

definition issueOf :: "'a lifecycle_method_scheme \<Rightarrow> ark_stmt \<Rightarrow> undefined_issue" where
  "issueOf lm stmt =
     \<lparr>uiMethod = methodKey lm,
      uiLine = stmtLineNo stmt,
      uiDescription = riskDescriptionPrefix @ take 60 (stmtText stmt),
      uiSeverity = assessSeverity (stmtText stmt)\<rparr>"

text \<open>The body of the inner loop over \<^verbatim>\<open>cfg.getStmts()\<close>, for one statement.\<close>

definition checkStmt :: "'a lifecycle_method_scheme \<Rightarrow> ark_stmt \<Rightarrow>
    undefined_issue uv_loop \<Rightarrow> undefined_issue uv_loop" where
  "checkStmt lm stmt acc =
     (if containsUndefinedRisk (stmtText stmt)
      then acc\<lparr>uvIssues := uvIssues acc @ [issueOf lm stmt],
               uvIssueCount := uvIssueCount acc + 1\<rparr>
      else acc)"

text \<open>
  The body of the outer loop for one lifecycle method: everything inside the \<^verbatim>\<open>try\<close>.
  The solver runs first and the statements are scanned after it, in the same \<^verbatim>\<open>try\<close>
  block, whose \<^verbatim>\<open>catch\<close> is empty.
\<close>

definition analyzeLifecycleMethod :: "solver \<Rightarrow> 'a lifecycle_method_scheme \<Rightarrow>
    undefined_issue uv_loop \<Rightarrow> undefined_issue uv_loop" where
  "analyzeLifecycleMethod solve lm acc =
     (case methodCfg (lmMethod lm) of
        None \<Rightarrow> acc
      | Some cfg \<Rightarrow>
          if cfg = [] then acc
          else
            let acc1 = acc\<lparr>uvAnalyzedCount := uvAnalyzedCount acc + 1\<rparr> in
            (case cfg of
               (firstStmt # _) # _ \<Rightarrow>
                 (case solve firstStmt (lmMethod lm) of
                    Inl _ \<Rightarrow> acc1
                  | Inr _ \<Rightarrow> fold (checkStmt lm) (getStmts cfg) acc1)
             | _ \<Rightarrow> acc1))"

subsection \<open>Version 3\<close>

definition issueOf_v3 :: "'a lifecycle_method_scheme \<Rightarrow> ark_stmt \<Rightarrow> undefined_issue_v3" where
  "issueOf_v3 lm stmt =
     \<lparr>uiMethod = methodKey lm,
      uiLine = stmtLineNo stmt,
      uiDescription = riskDescriptionPrefix @ take 60 (stmtText stmt),
      uiSeverity = assessSeverity (stmtText stmt),
      uiClassName = lmClassName lm\<rparr>"

definition checkStmt_v3 :: "'a lifecycle_method_scheme \<Rightarrow> ark_stmt \<Rightarrow>
    undefined_issue_v3 uv_loop \<Rightarrow> undefined_issue_v3 uv_loop" where
  "checkStmt_v3 lm stmt acc =
     (if containsUndefinedRisk (stmtText stmt)
      then acc\<lparr>uvIssueCount := uvIssueCount acc + 1,
               uvIssues := uvIssues acc @ [issueOf_v3 lm stmt]\<rparr>
      else acc)"

definition analyzeLifecycleMethod_v3 :: "solver \<Rightarrow> 'a lifecycle_method_scheme \<Rightarrow>
    undefined_issue_v3 uv_loop \<Rightarrow> undefined_issue_v3 uv_loop" where
  "analyzeLifecycleMethod_v3 solve lm acc =
     (case methodCfg (lmMethod lm) of
        None \<Rightarrow> acc
      | Some cfg \<Rightarrow>
          if cfg = [] then acc
          else
            let acc1 = acc\<lparr>uvAnalyzedCount := uvAnalyzedCount acc + 1\<rparr> in
            (case cfg of
               (firstStmt # _) # _ \<Rightarrow>
                 (case solve firstStmt (lmMethod lm) of
                    Inl _ \<Rightarrow> acc1
                  | Inr _ \<Rightarrow> fold (checkStmt_v3 lm) (getStmts cfg) acc1)
             | _ \<Rightarrow> acc1))"

section \<open>The project-wide analyzer \<^verbatim>\<open>OpenEyeAnalyzer\<close>\<close>

record analysis_stats_oe =
  totalFiles_oe :: nat
  totalClasses_oe :: nat
  totalMethods_oe :: nat
  analyzedMethods_oe :: nat
  issuesFound_oe :: nat

record undefined_issue_oe =
  oeFile :: string
  oeClassName :: string
  oeMethodName :: string
  oeVariable :: string
  oeLine :: int
  oeDescription :: string

record analyzer_oe =
  stats_oe :: analysis_stats_oe
  issues_oe :: "undefined_issue_oe list"

text \<open>The solver of this analyzer is constructed from the control-flow graph alone.\<close>

type_synonym solver_oe = "ark_cfg \<Rightarrow> error + unit"

definition newAnalyzer_oe :: analyzer_oe where
  "newAnalyzer_oe =
     \<lparr>stats_oe = \<lparr>totalFiles_oe = 0, totalClasses_oe = 0, totalMethods_oe = 0,
                  analyzedMethods_oe = 0, issuesFound_oe = 0\<rparr>,
      issues_oe = []\<rparr>"

definition addIssue :: "undefined_issue_oe \<Rightarrow> analyzer_oe \<Rightarrow> analyzer_oe" where
  "addIssue issue st =
     st\<lparr>issues_oe := issues_oe st @ [issue],
        stats_oe := (stats_oe st)\<lparr>issuesFound_oe := issuesFound_oe (stats_oe st) + 1\<rparr>\<rparr>"

text \<open>The literals of the three issues (non-ASCII text, as UTF-8 bytes).\<close>

definition variableValue :: string where
  "variableValue = [CHR 0xE5, CHR 0x80, CHR 0xBC]"

definition descriptionUndefinedValue :: string where
  "descriptionUndefinedValue =
     [CHR 0xE5, CHR 0x8F, CHR 0xAF, CHR 0xE8, CHR 0x83, CHR 0xBD, CHR 0xE4, CHR 0xBD, CHR 0xBF,
      CHR 0xE7, CHR 0x94, CHR 0xA8, CHR 0xE4, CHR 0xBA, CHR 0x86, CHR 0x20] @ ''undefined'' @
     [CHR 0x20, CHR 0xE5, CHR 0x80, CHR 0xBC]"

definition variableField :: string where
  "variableField = [CHR 0xE5, CHR 0xAD, CHR 0x97, CHR 0xE6, CHR 0xAE, CHR 0xB5]"

definition descriptionNullField :: string where
  "descriptionNullField =
     [CHR 0xE5, CHR 0x8F, CHR 0xAF, CHR 0xE8, CHR 0x83, CHR 0xBD, CHR 0xE7, CHR 0x9A, CHR 0x84,
      CHR 0xE7, CHR 0xA9, CHR 0xBA, CHR 0xE6, CHR 0x8C, CHR 0x87, CHR 0xE9, CHR 0x92, CHR 0x88,
      CHR 0xE5, CHR 0xAD, CHR 0x97, CHR 0xE6, CHR 0xAE, CHR 0xB5, CHR 0xE8, CHR 0xAE, CHR 0xBF,
      CHR 0xE9, CHR 0x97, CHR 0xAE]"

definition variableArrayElement :: string where
  "variableArrayElement =
     [CHR 0xE6, CHR 0x95, CHR 0xB0, CHR 0xE7, CHR 0xBB, CHR 0x84, CHR 0xE5, CHR 0x85, CHR 0x83,
      CHR 0xE7, CHR 0xB4, CHR 0xA0]"

definition descriptionArrayAccess :: string where
  "descriptionArrayAccess =
     [CHR 0xE6, CHR 0x95, CHR 0xB0, CHR 0xE7, CHR 0xBB, CHR 0x84, CHR 0xE8, CHR 0xAE, CHR 0xBF,
      CHR 0xE9, CHR 0x97, CHR 0xAE, CHR 0xE5, CHR 0x8F, CHR 0xAF, CHR 0xE8, CHR 0x83, CHR 0xBD,
      CHR 0xE8, CHR 0xB6, CHR 0x8A, CHR 0xE7, CHR 0x95, CHR 0x8C, CHR 0xE5, CHR 0xAF, CHR 0xBC,
      CHR 0xE8, CHR 0x87, CHR 0xB4, CHR 0x20] @ ''undefined''"

text \<open>
  \<^verbatim>\<open>checkStatement\<close>: three checks one after the other, each with its own \<^verbatim>\<open>if\<close>; the
  fourth (optional chaining) records nothing.
\<close>

definition checkStatement :: "ark_stmt \<Rightarrow> ark_method \<Rightarrow> string \<Rightarrow> string \<Rightarrow>
    analyzer_oe \<Rightarrow> analyzer_oe" where
  "checkStatement stmt method clsName fName st =
     (let stmtStr = stmtText stmt;
          lineNo = stmtLineNo stmt;
          st1 = (if includesStr stmtStr ''undefined''
                 then addIssue \<lparr>oeFile = fName, oeClassName = clsName,
                                oeMethodName = methodName method, oeVariable = variableValue,
                                oeLine = lineNo, oeDescription = descriptionUndefinedValue\<rparr> st
                 else st);
          st2 = (if includesStr stmtStr ''fieldload'' \<and> includesStr stmtStr ''null''
                 then addIssue \<lparr>oeFile = fName, oeClassName = clsName,
                                oeMethodName = methodName method, oeVariable = variableField,
                                oeLine = lineNo, oeDescription = descriptionNullField\<rparr> st1
                 else st1);
          st3 = (if includesStr stmtStr ''arrayload''
                 then addIssue \<lparr>oeFile = fName, oeClassName = clsName,
                                oeMethodName = methodName method,
                                oeVariable = variableArrayElement,
                                oeLine = lineNo, oeDescription = descriptionArrayAccess\<rparr> st2
                 else st2)
      in st3)"

definition analyzeMethod :: "solver_oe \<Rightarrow> ark_method \<Rightarrow> string \<Rightarrow> string \<Rightarrow>
    analyzer_oe \<Rightarrow> analyzer_oe" where
  "analyzeMethod solve method clsName fName st =
     (if startsWith (methodName method) ''__'' \<or> methodName method = ''constructor'' then st
      else
        let st1 = st\<lparr>stats_oe := (stats_oe st)
                     \<lparr>analyzedMethods_oe := analyzedMethods_oe (stats_oe st) + 1\<rparr>\<rparr> in
        (case methodCfg method of
           None \<Rightarrow> st1
         | Some cfg \<Rightarrow>
             (case solve cfg of
                Inl _ \<Rightarrow> st1
              | Inr _ \<Rightarrow>
                  fold (\<lambda>stmt. checkStatement stmt method clsName fName) (getStmts cfg) st1)))"

definition analyzeClass :: "solver_oe \<Rightarrow> ark_class \<Rightarrow> string \<Rightarrow> analyzer_oe \<Rightarrow> analyzer_oe" where
  "analyzeClass solve cls fName st =
     (let st1 = st\<lparr>stats_oe := (stats_oe st)
                  \<lparr>totalMethods_oe := totalMethods_oe (stats_oe st) + length (classMethods cls)\<rparr>\<rparr>
      in fold (\<lambda>method. analyzeMethod solve method (className cls) fName) (classMethods cls) st1)"

text \<open>The test that makes every analyzer skip a file.\<close>

definition isTestFile :: "string \<Rightarrow> bool" where
  "isTestFile fName = (includesStr fName ''test'' \<or> includesStr fName ''Test'')"

definition analyzeFile :: "solver_oe \<Rightarrow> (cid \<Rightarrow> ark_class) \<Rightarrow> ark_file \<Rightarrow>
    analyzer_oe \<Rightarrow> analyzer_oe" where
  "analyzeFile solve heap file st =
     (if isTestFile (fileName file) then st
      else
        let st1 = st\<lparr>stats_oe := (stats_oe st)
                     \<lparr>totalClasses_oe := totalClasses_oe (stats_oe st) + length (fileClasses file)\<rparr>\<rparr>
        in fold (\<lambda>c. analyzeClass solve (heap c) (fileName file)) (fileClasses file) st1)"

definition analyze :: "solver_oe \<Rightarrow> scene \<Rightarrow> analyzer_oe \<Rightarrow> analyzer_oe" where
  "analyze solve sc st =
     fold (analyzeFile solve (sceneClass sc)) (sceneFiles sc)
       (st\<lparr>stats_oe := (stats_oe st)\<lparr>totalFiles_oe := length (sceneFiles sc)\<rparr>\<rparr>)"

section \<open>Data-flow extraction (versions 1 and 3)\<close>

text \<open>
  \<^verbatim>\<open>extractMethodFromInvoke\<close> tries two regular expressions on the expression text. On
  strings of bytes, \<^verbatim>\<open>\w\<close> is a letter, a digit or an underscore and \<^verbatim>\<open>\s\<close> is one of the
  six ASCII white-space characters.

  The strict expression \<^verbatim>\<open>/invoke\s+(\w+)\.<[^>]+:\s*\.(\w+)\(\)>/\<close> is tried at every
  position from the left. After the word invoke come a run of white space and a run of
  word characters (each as long as it can be, since the character after it must be of
  another kind), then a dot and an opening angle bracket, then the text up to the next
  closing angle bracket. That text must be a non-empty part, a colon, white space, a dot,
  a run of word characters and a pair of parentheses; the part after the colon has no
  colon, so the colon is the last one of the text.

  The simple expression \<^verbatim>\<open>/\.(\w+)\(\)/\<close> takes the first dot that is followed by a run
  of word characters and a pair of parentheses.
\<close>

definition isWordChar :: "char \<Rightarrow> bool" where
  "isWordChar c =
     (let n = (of_char c :: nat)
      in (48 \<le> n \<and> n \<le> 57) \<or> (65 \<le> n \<and> n \<le> 90) \<or> n = 95 \<or> (97 \<le> n \<and> n \<le> 122))"

definition isSpaceChar :: "char \<Rightarrow> bool" where
  "isSpaceChar c = (let n = (of_char c :: nat) in (9 \<le> n \<and> n \<le> 13) \<or> n = 32)"

text \<open>The text between the angle brackets of the strict expression.\<close>

definition strictTarget :: "string \<Rightarrow> string option" where
  "strictTarget target =
     (let afterColon = rev (takeWhile (\<lambda>c. c \<noteq> CHR '':'') (rev target));
          upToColon = dropWhile (\<lambda>c. c \<noteq> CHR '':'') (rev target)
      in if length upToColon < 2 then None
         else
           (case dropWhile isSpaceChar afterColon of
              [] \<Rightarrow> None
            | c # rest \<Rightarrow>
                if c = CHR ''.'' \<and> takeWhile isWordChar rest \<noteq> [] \<and>
                   dropWhile isWordChar rest = ''()''
                then Some (takeWhile isWordChar rest)
                else None))"

definition matchStrictAt :: "string \<Rightarrow> (string \<times> string) option" where
  "matchStrictAt s =
     (if \<not> startsWith s ''invoke'' then None
      else
        let afterInvoke = drop 6 s;
            afterSpace = dropWhile isSpaceChar afterInvoke;
            receiver = takeWhile isWordChar afterSpace;
            afterReceiver = dropWhile isWordChar afterSpace
        in if takeWhile isSpaceChar afterInvoke = [] \<or> receiver = [] \<or>
              \<not> startsWith afterReceiver ''.<''
           then None
           else
             let inside = drop 2 afterReceiver
             in if dropWhile (\<lambda>c. c \<noteq> CHR ''>'') inside = [] then None
                else
                  (case strictTarget (takeWhile (\<lambda>c. c \<noteq> CHR ''>'') inside) of
                     None \<Rightarrow> None
                   | Some name \<Rightarrow> Some (receiver, name)))"

fun matchStrict :: "string \<Rightarrow> (string \<times> string) option" where
  "matchStrict [] = None"
| "matchStrict (c # cs) =
     (case matchStrictAt (c # cs) of Some m \<Rightarrow> Some m | None \<Rightarrow> matchStrict cs)"

definition matchSimpleAt :: "string \<Rightarrow> string option" where
  "matchSimpleAt s =
     (case s of
        [] \<Rightarrow> None
      | c # rest \<Rightarrow>
          if c = CHR ''.'' \<and> takeWhile isWordChar rest \<noteq> [] \<and>
             startsWith (dropWhile isWordChar rest) ''()''
          then Some (takeWhile isWordChar rest)
          else None)"

fun matchSimple :: "string \<Rightarrow> string option" where
  "matchSimple [] = None"
| "matchSimple (c # cs) =
     (case matchSimpleAt (c # cs) of Some m \<Rightarrow> Some m | None \<Rightarrow> matchSimple cs)"

definition extractMethodFromInvoke :: "string \<Rightarrow> string option" where
  "extractMethodFromInvoke invokeExpr =
     (case matchStrict invokeExpr of
        Some (receiver, name) \<Rightarrow> Some (receiver @ ''.'' @ name)
      | None \<Rightarrow>
          (case matchSimple invokeExpr of
             Some name \<Rightarrow> Some name
           | None \<Rightarrow> None))"

text \<open>\<^verbatim>\<open>a || b\<close> on a nullable string takes \<open>b\<close> when \<open>a\<close> is null or empty.\<close>

definition orElse :: "string option \<Rightarrow> string \<Rightarrow> string" where
  "orElse a b = (case a of None \<Rightarrow> b | Some t \<Rightarrow> if t = [] then b else t)"

definition isInvocation :: "string \<Rightarrow> bool" where
  "isInvocation exprStr = (includesStr exprStr ''invoke'' \<or> includesStr exprStr ''call'')"

text \<open>The body of the loop over the expressions of a statement.\<close>

definition analyzeExpr :: "'a lifecycle_method_scheme \<Rightarrow> ark_stmt \<Rightarrow> string \<Rightarrow>
    data_flow_info list \<Rightarrow> data_flow_info list" where
  "analyzeExpr lm stmt exprStr flows =
     (if isInvocation exprStr
      then
        let targetMethod = extractMethodFromInvoke exprStr in
        flows @ [\<lparr>dfFrom = methodKey lm,
                   dfTo = orElse targetMethod (take 60 exprStr),
                   dfVariable = ''data'',
                   dfLine = stmtLineNo stmt,
                   dfCallChain = [methodKey lm] @ [orElse targetMethod ''unknown'']\<rparr>]
      else flows)"

definition analyzeStmtDataFlow :: "'a lifecycle_method_scheme \<Rightarrow> ark_stmt \<Rightarrow>
    data_flow_info list \<Rightarrow> data_flow_info list" where
  "analyzeStmtDataFlow lm stmt flows = fold (analyzeExpr lm stmt) (stmtExprs stmt) flows"

definition analyzeMethodDataFlow :: "'a lifecycle_method_scheme \<Rightarrow>
    data_flow_info list \<Rightarrow> data_flow_info list" where
  "analyzeMethodDataFlow lm flows =
     (case methodCfg (lmMethod lm) of
        None \<Rightarrow> flows
      | Some cfg \<Rightarrow> fold (analyzeStmtDataFlow lm) (getStmts cfg) flows)"

section \<open>Role classification\<close>

text \<open>
  The three versions of \<^verbatim>\<open>isAbilityClass\<close> differ in the list of base names only; the
  function is written once, over the list. Its ancestor walk:
  \<^verbatim>\<open>while (superClass) { if (BASE.includes(superClass.getSuperClassName())) return true;
  superClass = superClass.getSuperClass(); } return false;\<close>
  The loop keeps no record of the classes it has seen, so it may run forever: it is a
  partial function, and \<open>None\<close> is "does not return".
\<close>

partial_function (option) ancestorWalk ::
    "(cid \<Rightarrow> ark_class) \<Rightarrow> string list \<Rightarrow> cid option \<Rightarrow> bool option" where
  "ancestorWalk heap base superCls =
     (case superCls of
        None \<Rightarrow> Some False
      | Some c \<Rightarrow>
          if superClassName (heap c) \<in> set base then Some True
          else ancestorWalk heap base (superClass (heap c)))"

definition ABILITY_BASE :: "string list" where
  "ABILITY_BASE = [''UIAbility'', ''Ability'', ''UIExtensionAbility'']"

definition ABILITY_BASE_v2 :: "string list" where
  "ABILITY_BASE_v2 = [''UIAbility'', ''Ability'', ''UIExtensionAbility'',
                      ''FormExtensionAbility'', ''BackupExtensionAbility'']"

definition ABILITY_BASE_v3 :: "string list" where
  "ABILITY_BASE_v3 = [''UIAbility'', ''Ability'', ''UIExtensionAbility'',
                      ''FormExtensionAbility'', ''BackupExtensionAbility'',
                      ''ServiceExtensionAbility'']"

definition COMPONENT_BASE :: "string list" where
  "COMPONENT_BASE = [''CustomComponent'', ''ViewPU'']"

definition isAbilityClassWith :: "string list \<Rightarrow> (cid \<Rightarrow> ark_class) \<Rightarrow> ark_class \<Rightarrow>
    bool option" where
  "isAbilityClassWith base heap cls =
     (if superClassName cls \<in> set base then Some True
      else ancestorWalk heap base (superClass cls))"

definition isAbilityClass :: "(cid \<Rightarrow> ark_class) \<Rightarrow> ark_class \<Rightarrow> bool option" where
  "isAbilityClass = isAbilityClassWith ABILITY_BASE"

definition isAbilityClass_v2 :: "(cid \<Rightarrow> ark_class) \<Rightarrow> ark_class \<Rightarrow> bool option" where
  "isAbilityClass_v2 = isAbilityClassWith ABILITY_BASE_v2"

definition isAbilityClass_v3 :: "(cid \<Rightarrow> ark_class) \<Rightarrow> ark_class \<Rightarrow> bool option" where
  "isAbilityClass_v3 = isAbilityClassWith ABILITY_BASE_v3"

text \<open>Versions 1 and 2 have the same \<^verbatim>\<open>isComponentClass\<close>; version 3 adds the Entry decorator.\<close>

definition isComponentClass :: "ark_class \<Rightarrow> bool" where
  "isComponentClass cls =
     (if superClassName cls \<in> set COMPONENT_BASE then True
      else if hasDecorator cls ''Component'' then True
      else False)"

definition isComponentClass_v3 :: "ark_class \<Rightarrow> bool" where
  "isComponentClass_v3 cls =
     (if superClassName cls \<in> set COMPONENT_BASE then True
      else if hasDecorator cls ''Component'' then True
      else if hasDecorator cls ''Entry'' then True
      else False)"

text \<open>
  The two checks as \<^verbatim>\<open>identifyLifecycleMethods\<close> makes them for a class, one after the other:
  \<^verbatim>\<open>const isAbility = this.isAbilityClass(cls); const isComponent = this.isComponentClass(cls);\<close>
\<close>

definition classify :: "(cid \<Rightarrow> ark_class) \<Rightarrow> ark_class \<Rightarrow> (bool \<times> bool) option" where
  "classify heap cls =
     (case isAbilityClass heap cls of
        None \<Rightarrow> None
      | Some isAbility \<Rightarrow> Some (isAbility, isComponentClass cls))"

definition classify_v3 :: "(cid \<Rightarrow> ark_class) \<Rightarrow> ark_class \<Rightarrow> (bool \<times> bool) option" where
  "classify_v3 heap cls =
     (case isAbilityClass_v3 heap cls of
        None \<Rightarrow> None
      | Some isAbility \<Rightarrow> Some (isAbility, isComponentClass_v3 cls))"

text \<open>
  The chain of resolved superclass references that starts at a reference ends: it reaches
  null (a class without superclass, or one whose superclass is not in the scene).
\<close>

inductive chainEnds :: "(cid \<Rightarrow> ark_class) \<Rightarrow> cid option \<Rightarrow> bool" for heap where
  chainEnds_null: "chainEnds heap None"
| chainEnds_step: "chainEnds heap (superClass (heap c)) \<Longrightarrow> chainEnds heap (Some c)"

text \<open>
  What the walk meets on the chain that starts at a reference: a class whose superclass
  name is a base name, with no such class before it; or null, with no such class on the
  way.
\<close>

inductive reachesBase :: "(cid \<Rightarrow> ark_class) \<Rightarrow> string list \<Rightarrow> cid option \<Rightarrow> bool"
  for heap base where
  reachesBase_here: "superClassName (heap c) \<in> set base \<Longrightarrow> reachesBase heap base (Some c)"
| reachesBase_step: "superClassName (heap c) \<notin> set base \<Longrightarrow>
    reachesBase heap base (superClass (heap c)) \<Longrightarrow> reachesBase heap base (Some c)"

inductive endsBaseless :: "(cid \<Rightarrow> ark_class) \<Rightarrow> string list \<Rightarrow> cid option \<Rightarrow> bool"
  for heap base where
  endsBaseless_null: "endsBaseless heap base None"
| endsBaseless_step: "superClassName (heap c) \<notin> set base \<Longrightarrow>
    endsBaseless heap base (superClass (heap c)) \<Longrightarrow> endsBaseless heap base (Some c)"

text \<open>
  The same for a class, whose own superclass name is tested before the walk starts at its
  superclass.
\<close>

definition hasBaseAncestor :: "string list \<Rightarrow> (cid \<Rightarrow> ark_class) \<Rightarrow> ark_class \<Rightarrow> bool" where
  "hasBaseAncestor base heap cls =
     (superClassName cls \<in> set base \<or> reachesBase heap base (superClass cls))"

definition hasNoBaseAncestor :: "string list \<Rightarrow> (cid \<Rightarrow> ark_class) \<Rightarrow> ark_class \<Rightarrow> bool" where
  "hasNoBaseAncestor base heap cls =
     (superClassName cls \<notin> set base \<and> endsBaseless heap base (superClass cls))"

text \<open>
  The reference that the walk holds after \<open>k\<close> steps, and a chain that runs into a cycle:
  the own superclass name of the class is no base name, the reference after \<open>k + n\<close>
  steps is the one after \<open>k\<close> steps, with \<open>0 < n\<close>, and each of the first \<open>k + n\<close>
  references is a class whose superclass name is no base name.
\<close>

fun ancestorAt :: "(cid \<Rightarrow> ark_class) \<Rightarrow> nat \<Rightarrow> cid option \<Rightarrow> cid option" where
  "ancestorAt heap 0 superCls = superCls"
| "ancestorAt heap (Suc k) superCls =
     (case superCls of None \<Rightarrow> None | Some c \<Rightarrow> ancestorAt heap k (superClass (heap c)))"

definition baselessAt :: "string list \<Rightarrow> (cid \<Rightarrow> ark_class) \<Rightarrow> cid option \<Rightarrow> nat \<Rightarrow> bool" where
  "baselessAt base heap superCls i =
     (case ancestorAt heap i superCls of
        None \<Rightarrow> False
      | Some d \<Rightarrow> superClassName (heap d) \<notin> set base)"

definition entersCycle :: "string list \<Rightarrow> (cid \<Rightarrow> ark_class) \<Rightarrow> ark_class \<Rightarrow> nat \<Rightarrow> nat \<Rightarrow> bool"
  where
  "entersCycle base heap cls k n =
     (superClassName cls \<notin> set base \<and> 0 < n \<and>
      ancestorAt heap (k + n) (superClass cls) = ancestorAt heap k (superClass cls) \<and>
      list_all (baselessAt base heap (superClass cls)) [0..<k + n])"

text \<open>The tests that make the three lifecycle analyzers skip a class.\<close>

definition skipsClass :: "string \<Rightarrow> bool" where
  "skipsClass clsName = includesStr clsName ''_DEFAULT_''"

definition skipsClass_v2 :: "string \<Rightarrow> bool" where
  "skipsClass_v2 clsName = (includesStr clsName ''_DEFAULT_'' \<or> includesStr clsName ''%'')"

definition skipsClass_v3 :: "string \<Rightarrow> bool" where
  "skipsClass_v3 clsName =
     (includesStr clsName ''_DEFAULT_'' \<or> includesStr clsName ''%AC'' \<or>
      includesStr clsName ''%dflt'')"

section \<open>Loops that may stop early\<close>

text \<open>
  A \<^verbatim>\<open>for ... of\<close> loop whose body may throw (\<open>Inl\<close>), may fail to return (\<open>None\<close>), or
  both; an exception or a body that does not return ends the loop.
\<close>

fun foldE :: "('a \<Rightarrow> 's \<Rightarrow> error + 's) \<Rightarrow> 'a list \<Rightarrow> 's \<Rightarrow> error + 's" where
  "foldE f [] s = Inr s"
| "foldE f (x # xs) s = (case f x s of Inl e \<Rightarrow> Inl e | Inr s' \<Rightarrow> foldE f xs s')"

fun foldO :: "('a \<Rightarrow> 's \<Rightarrow> 's option) \<Rightarrow> 'a list \<Rightarrow> 's \<Rightarrow> 's option" where
  "foldO f [] s = Some s"
| "foldO f (x # xs) s = (case f x s of None \<Rightarrow> None | Some s' \<Rightarrow> foldO f xs s')"

fun foldR :: "('a \<Rightarrow> 's \<Rightarrow> (error + 's) option) \<Rightarrow> 'a list \<Rightarrow> 's \<Rightarrow> (error + 's) option" where
  "foldR f [] s = Some (Inr s)"
| "foldR f (x # xs) s =
     (case f x s of
        None \<Rightarrow> None
      | Some (Inl e) \<Rightarrow> Some (Inl e)
      | Some (Inr s') \<Rightarrow> foldR f xs s')"

section \<open>The call graph, built by the external class-hierarchy analysis\<close>

record call_graph =
  cgNodeNum :: nat
  cgEdgeNum :: nat

text \<open>
  What \<^verbatim>\<open>buildCallGraph\<close> consumes: creating the dummy main (which may throw), the
  signatures of the scene's methods named \<^verbatim>\<open>@dummyMain\<close> afterwards, and the external
  builder \<^verbatim>\<open>makeCallGraphCHA\<close> (which may throw).
\<close>

record call_graph_env =
  createDummyMain :: "error + unit"
  dummyMainSignatures :: "string list"
  makeCallGraphCHA :: "string list \<Rightarrow> error + call_graph"

section \<open>Version 1: \<^verbatim>\<open>OpenEyeLifecycleAnalyzer\<close>\<close>

text \<open>
  The fields \<^verbatim>\<open>stats.lifecycleMethods\<close> and \<^verbatim>\<open>stats.undefinedIssues\<close> of the source are
  \<open>lifecycleMethodCount\<close> and \<open>undefinedIssueCount\<close> here, since the analyzer has fields of
  the same names.
\<close>

record analysis_stats =
  totalFiles :: nat
  totalMethods :: nat
  lifecycleMethodCount :: nat
  callGraphNodes :: nat
  callGraphEdges :: nat
  dataFlowPaths :: nat
  undefinedIssueCount :: nat

record analyzer =
  lifecycleMethods :: "lifecycle_method list"
  callGraph :: "call_graph option"
  dataFlows :: "data_flow_info list"
  undefinedIssues :: "undefined_issue list"
  stats :: analysis_stats

definition ABILITY_LIFECYCLE :: "string list" where
  "ABILITY_LIFECYCLE =
     [''onCreate'', ''onDestroy'',
      ''onWindowStageCreate'', ''onWindowStageDestroy'',
      ''onForeground'', ''onBackground'',
      ''onNewWant'',
      ''onConfigurationUpdate'',
      ''onBackPressed'',
      ''onWindowStageWillDestroy'',
      ''onContinue'',
      ''onSaveState'']"

definition COMPONENT_LIFECYCLE :: "string list" where
  "COMPONENT_LIFECYCLE =
     [''aboutToAppear'', ''aboutToDisappear'',
      ''onPageShow'', ''onPageHide'',
      ''onBackPress'',
      ''onDidBuild'',
      ''aboutToReuse'',
      ''aboutToRecycle'',
      ''onWillApplyTheme'',
      ''onLayout'',
      ''onMeasure'',
      ''onMeasureSize'',
      ''onFormRecycle'',
      ''onFormRecover'']"

definition newAnalyzer :: analyzer where
  "newAnalyzer =
     \<lparr>lifecycleMethods = [], callGraph = None, dataFlows = [], undefinedIssues = [],
      stats = \<lparr>totalFiles = 0, totalMethods = 0, lifecycleMethodCount = 0,
               callGraphNodes = 0, callGraphEdges = 0, dataFlowPaths = 0,
               undefinedIssueCount = 0\<rparr>\<rparr>"

text \<open>The record that is pushed for a method found under a catalog partition.\<close>

definition lifecycleRecord :: "lifecycle_type \<Rightarrow> string \<Rightarrow> string \<Rightarrow> ark_method \<Rightarrow>
    lifecycle_method" where
  "lifecycleRecord ty fName clsName method =
     \<lparr>lmMethod = method, lmType = ty, lmPhase = methodName method,
      lmClassName = clsName, lmFilePath = fName\<rparr>"

text \<open>
  The body of the loop over the methods of a class. The two checks are two separate
  \<^verbatim>\<open>if\<close> statements.
\<close>

definition visitMethod :: "string \<Rightarrow> string \<Rightarrow> bool \<Rightarrow> bool \<Rightarrow> ark_method \<Rightarrow>
    analyzer \<Rightarrow> analyzer" where
  "visitMethod fName clsName isAbility isComponent method st =
     (let st1 = st\<lparr>stats := (stats st)\<lparr>totalMethods := totalMethods (stats st) + 1\<rparr>\<rparr>;
          st2 = (if isAbility \<and> methodName method \<in> set ABILITY_LIFECYCLE
                 then st1\<lparr>lifecycleMethods := lifecycleMethods st1 @
                        [lifecycleRecord ABILITY fName clsName method]\<rparr>
                 else st1);
          st3 = (if isComponent \<and> methodName method \<in> set COMPONENT_LIFECYCLE
                 then st2\<lparr>lifecycleMethods := lifecycleMethods st2 @
                        [lifecycleRecord COMPONENT fName clsName method]\<rparr>
                 else st2)
      in st3)"

text \<open>
  The bodies of the loops over the classes of a file and over the files of the scene, and
  \<^verbatim>\<open>identifyLifecycleMethods\<close> itself. Classifying a class may fail to return, and then
  so does the scan.
\<close>

definition visitClass :: "(cid \<Rightarrow> ark_class) \<Rightarrow> string \<Rightarrow> cid \<Rightarrow> analyzer \<Rightarrow>
    analyzer option" where
  "visitClass heap fName c st =
     (let cls = heap c in
      if skipsClass (className cls) then Some st
      else
        (case isAbilityClass heap cls of
           None \<Rightarrow> None
         | Some isAbility \<Rightarrow>
             let isComponent = isComponentClass cls in
             Some (fold (visitMethod fName (className cls) isAbility isComponent)
                     (classMethods cls) st)))"

definition visitFile :: "(cid \<Rightarrow> ark_class) \<Rightarrow> ark_file \<Rightarrow> analyzer \<Rightarrow> analyzer option" where
  "visitFile heap file st =
     (if isTestFile (fileName file) then Some st
      else foldO (visitClass heap (fileName file)) (fileClasses file) st)"

definition identifyLifecycleMethods :: "scene \<Rightarrow> analyzer \<Rightarrow> analyzer option" where
  "identifyLifecycleMethods sc st =
     (case foldO (visitFile (sceneClass sc)) (sceneFiles sc)
             (st\<lparr>stats := (stats st)\<lparr>totalFiles := length (sceneFiles sc)\<rparr>\<rparr>) of
        None \<Rightarrow> None
      | Some st' \<Rightarrow>
          Some (st'\<lparr>stats := (stats st')
                  \<lparr>lifecycleMethodCount := length (lifecycleMethods st')\<rparr>\<rparr>))"

definition setCallGraph :: "call_graph \<Rightarrow> analyzer \<Rightarrow> analyzer" where
  "setCallGraph cg st =
     st\<lparr>callGraph := Some cg,
        stats := (stats st)\<lparr>callGraphNodes := cgNodeNum cg, callGraphEdges := cgEdgeNum cg\<rparr>\<rparr>"

text \<open>Everything in \<^verbatim>\<open>buildCallGraph\<close> is inside one \<^verbatim>\<open>try\<close>; the \<^verbatim>\<open>catch\<close> only logs.\<close>

definition buildCallGraph :: "call_graph_env \<Rightarrow> analyzer \<Rightarrow> analyzer" where
  "buildCallGraph env st =
     (case createDummyMain env of
        Inl _ \<Rightarrow> st
      | Inr _ \<Rightarrow>
          if dummyMainSignatures env \<noteq> []
          then (case makeCallGraphCHA env (dummyMainSignatures env) of
                  Inl _ \<Rightarrow> st
                | Inr cg \<Rightarrow> setCallGraph cg st)
          else
            let lifecycleEntryPoints =
                  map (\<lambda>lm. methodSignature (lmMethod lm)) (lifecycleMethods st)
            in if lifecycleEntryPoints \<noteq> []
               then (case makeCallGraphCHA env lifecycleEntryPoints of
                       Inl _ \<Rightarrow> st
                     | Inr cg \<Rightarrow> setCallGraph cg st)
               else st)"

definition analyzeUndefinedVariables :: "solver \<Rightarrow> analyzer \<Rightarrow> analyzer" where
  "analyzeUndefinedVariables solve st =
     (let acc = fold (analyzeLifecycleMethod solve) (lifecycleMethods st)
                  \<lparr>uvAnalyzedCount = 0, uvIssueCount = 0, uvIssues = undefinedIssues st\<rparr>
      in st\<lparr>undefinedIssues := uvIssues acc,
            stats := (stats st)\<lparr>undefinedIssueCount := uvIssueCount acc\<rparr>\<rparr>)"

definition analyzeDataFlow :: "analyzer \<Rightarrow> analyzer" where
  "analyzeDataFlow st =
     (case callGraph st of
        None \<Rightarrow> st
      | Some _ \<Rightarrow>
          let flows = fold (analyzeMethodDataFlow) (lifecycleMethods st) (dataFlows st)
          in st\<lparr>dataFlows := flows,
                stats := (stats st)\<lparr>dataFlowPaths := length flows\<rparr>\<rparr>)"

text \<open>
  The state-changing steps of the main function \<^verbatim>\<open>analyzeOpenEyeLifecycle\<close>, in its order;
  the report and the export that follow only read the analyzer.
\<close>

definition analyzeOpenEyeLifecycle :: "call_graph_env \<Rightarrow> solver \<Rightarrow> scene \<Rightarrow>
    analyzer option" where
  "analyzeOpenEyeLifecycle env solve sc =
     (case identifyLifecycleMethods sc newAnalyzer of
        None \<Rightarrow> None
      | Some st \<Rightarrow>
          Some (analyzeDataFlow (analyzeUndefinedVariables solve (buildCallGraph env st))))"

section \<open>Coverage statistics (versions 2 and 3)\<close>

text \<open>
  The catalogs \<^verbatim>\<open>LIFECYCLE_METHOD_NAME\<close>, \<^verbatim>\<open>COMPONENT_LIFECYCLE_METHOD_NAME\<close> and
  \<^verbatim>\<open>CALLBACK_METHOD_NAME\<close> are imported from the framework; they are parameters here.
\<close>

record entry_method_utils =
  LIFECYCLE_METHOD_NAME :: "string list"
  COMPONENT_LIFECYCLE_METHOD_NAME :: "string list"
  CALLBACK_METHOD_NAME :: "string list"

record coverage_stats =
  csMethodName :: string
  csIsDefined :: bool
  csIsUsed :: bool
  csUsageCount :: nat
  csClasses :: "string list"

record coverage_stats_v3 = coverage_stats +
  csFiles :: "string list"

definition unusedStat :: "string \<Rightarrow> coverage_stats" where
  "unusedStat name =
     \<lparr>csMethodName = name, csIsDefined = True, csIsUsed = False, csUsageCount = 0,
      csClasses = []\<rparr>"

definition unusedStat_v3 :: "string \<Rightarrow> coverage_stats_v3" where
  "unusedStat_v3 name =
     \<lparr>csMethodName = name, csIsDefined = True, csIsUsed = False, csUsageCount = 0,
      csClasses = [], csFiles = []\<rparr>"

text \<open>One loop of \<^verbatim>\<open>initializeStats\<close>: \<^verbatim>\<open>map.set(methodName, {...})\<close> for every name.\<close>

definition initializeTable :: "(string \<Rightarrow> 'v) \<Rightarrow> string list \<Rightarrow> (string \<rightharpoonup> 'v)" where
  "initializeTable mk names = fold (\<lambda>name tbl. tbl(name \<mapsto> mk name)) names Map.empty"

text \<open>\<^verbatim>\<open>if (!xs.includes(x)) xs.push(x)\<close>\<close>

definition pushIfAbsent :: "string \<Rightarrow> string list \<Rightarrow> string list" where
  "pushIfAbsent x xs = (if x \<in> set xs then xs else xs @ [x])"

text \<open>
  \<^verbatim>\<open>const stat = table.get(methodName)!; stat.isUsed = true; stat.usageCount++; ...\<close>
  Writing to a missing entry throws a TypeError.
\<close>

definition recordUsage :: "string \<Rightarrow> string \<Rightarrow> (string \<rightharpoonup> coverage_stats) \<Rightarrow>
    error + (string \<rightharpoonup> coverage_stats)" where
  "recordUsage name clsName tbl =
     (case tbl name of
        None \<Rightarrow> Inl TypeError
      | Some stat \<Rightarrow>
          Inr (tbl(name \<mapsto> stat\<lparr>csIsUsed := True,
                                 csUsageCount := csUsageCount stat + 1,
                                 csClasses := csClasses stat @ [clsName]\<rparr>)))"

definition recordUsage_v3 :: "string \<Rightarrow> string \<Rightarrow> string \<Rightarrow> (string \<rightharpoonup> coverage_stats_v3) \<Rightarrow>
    error + (string \<rightharpoonup> coverage_stats_v3)" where
  "recordUsage_v3 name clsName fName tbl =
     (case tbl name of
        None \<Rightarrow> Inl TypeError
      | Some stat \<Rightarrow>
          Inr (tbl(name \<mapsto> stat\<lparr>csIsUsed := True,
                                 csUsageCount := csUsageCount stat + 1,
                                 csClasses := pushIfAbsent clsName (csClasses stat),
                                 csFiles := pushIfAbsent fName (csFiles stat)\<rparr>)))"

section \<open>Version 2: \<^verbatim>\<open>EnhancedOpenEyeLifecycleAnalyzer\<close>\<close>

record analyzer_v2 =
  lifecycleMethods_v2 :: "lifecycle_method_info_v2 list"
  abilityLifecycleStats_v2 :: "string \<rightharpoonup> coverage_stats"
  componentLifecycleStats_v2 :: "string \<rightharpoonup> coverage_stats"

definition newAnalyzer_v2 :: "entry_method_utils \<Rightarrow> analyzer_v2" where
  "newAnalyzer_v2 cat =
     \<lparr>lifecycleMethods_v2 = [],
      abilityLifecycleStats_v2 = initializeTable unusedStat (LIFECYCLE_METHOD_NAME cat),
      componentLifecycleStats_v2 =
        initializeTable unusedStat (COMPONENT_LIFECYCLE_METHOD_NAME cat)\<rparr>"

definition lifecycleRecord_v2 :: "lifecycle_type \<Rightarrow> string \<Rightarrow> string \<Rightarrow> ark_method \<Rightarrow>
    lifecycle_method_info_v2" where
  "lifecycleRecord_v2 ty fName clsName method =
     \<lparr>lmMethod = method, lmType = ty, lmPhase = methodName method,
      lmClassName = clsName, lmFilePath = fName,
      lmLineNumber = methodLineCol method\<rparr>"

definition recordAbility_v2 :: "string \<Rightarrow> string \<Rightarrow> ark_method \<Rightarrow> analyzer_v2 \<Rightarrow>
    error + analyzer_v2" where
  "recordAbility_v2 fName clsName method st =
     (let st1 = st\<lparr>lifecycleMethods_v2 := lifecycleMethods_v2 st @
                   [lifecycleRecord_v2 ABILITY fName clsName method]\<rparr>
      in case recordUsage (methodName method) clsName (abilityLifecycleStats_v2 st1) of
           Inl e \<Rightarrow> Inl e
         | Inr tbl \<Rightarrow> Inr (st1\<lparr>abilityLifecycleStats_v2 := tbl\<rparr>))"

definition recordComponent_v2 :: "string \<Rightarrow> string \<Rightarrow> ark_method \<Rightarrow> analyzer_v2 \<Rightarrow>
    error + analyzer_v2" where
  "recordComponent_v2 fName clsName method st =
     (let st1 = st\<lparr>lifecycleMethods_v2 := lifecycleMethods_v2 st @
                   [lifecycleRecord_v2 COMPONENT fName clsName method]\<rparr>
      in case recordUsage (methodName method) clsName (componentLifecycleStats_v2 st1) of
           Inl e \<Rightarrow> Inl e
         | Inr tbl \<Rightarrow> Inr (st1\<lparr>componentLifecycleStats_v2 := tbl\<rparr>))"

definition visitMethod_v2 :: "entry_method_utils \<Rightarrow> string \<Rightarrow> string \<Rightarrow> bool \<Rightarrow> bool \<Rightarrow>
    ark_method \<Rightarrow> analyzer_v2 \<Rightarrow> error + analyzer_v2" where
  "visitMethod_v2 cat fName clsName isAbility isComponent method st =
     (case (if isAbility \<and> methodName method \<in> set (LIFECYCLE_METHOD_NAME cat)
            then recordAbility_v2 fName clsName method st
            else Inr st) of
        Inl e \<Rightarrow> Inl e
      | Inr st1 \<Rightarrow>
          if isComponent \<and> methodName method \<in> set (COMPONENT_LIFECYCLE_METHOD_NAME cat)
          then recordComponent_v2 fName clsName method st1
          else Inr st1)"

text \<open>
  The counters \<^verbatim>\<open>totalClasses\<close>, \<^verbatim>\<open>abilityClasses\<close> and \<^verbatim>\<open>componentClasses\<close> of version 2
  are local variables that are only printed; they are left out.
\<close>

definition visitClass_v2 :: "entry_method_utils \<Rightarrow> (cid \<Rightarrow> ark_class) \<Rightarrow> string \<Rightarrow> cid \<Rightarrow>
    analyzer_v2 \<Rightarrow> (error + analyzer_v2) option" where
  "visitClass_v2 cat heap fName c st =
     (let cls = heap c in
      if skipsClass_v2 (className cls) then Some (Inr st)
      else
        (case isAbilityClass_v2 heap cls of
           None \<Rightarrow> None
         | Some isAbility \<Rightarrow>
             let isComponent = isComponentClass cls in
             Some (foldE (visitMethod_v2 cat fName (className cls) isAbility isComponent)
                     (classMethods cls) st)))"

definition visitFile_v2 :: "entry_method_utils \<Rightarrow> (cid \<Rightarrow> ark_class) \<Rightarrow> ark_file \<Rightarrow>
    analyzer_v2 \<Rightarrow> (error + analyzer_v2) option" where
  "visitFile_v2 cat heap file st =
     (if isTestFile (fileName file) then Some (Inr st)
      else foldR (visitClass_v2 cat heap (fileName file)) (fileClasses file) st)"

definition identifyLifecycleMethods_v2 :: "entry_method_utils \<Rightarrow> scene \<Rightarrow> analyzer_v2 \<Rightarrow>
    (error + analyzer_v2) option" where
  "identifyLifecycleMethods_v2 cat sc st =
     foldR (visitFile_v2 cat (sceneClass sc)) (sceneFiles sc) st"

section \<open>Version 3: \<^verbatim>\<open>OpenEyeLifecycleAnalyzerV3\<close>\<close>

record analysis_stats_v3 =
  totalFiles_v3 :: nat
  totalClasses_v3 :: nat
  totalMethods_v3 :: nat
  abilityClasses_v3 :: nat
  componentClasses_v3 :: nat
  lifecycleMethodCount_v3 :: nat
  callGraphNodes_v3 :: nat
  callGraphEdges_v3 :: nat
  dataFlowPaths_v3 :: nat
  undefinedIssueCount_v3 :: nat

record analyzer_v3 =
  lifecycleMethods_v3 :: "lifecycle_method_info list"
  callGraph_v3 :: "call_graph option"
  dataFlows_v3 :: "data_flow_info list"
  undefinedIssues_v3 :: "undefined_issue_v3 list"
  stats_v3 :: analysis_stats_v3
  abilityLifecycleStats :: "string \<rightharpoonup> coverage_stats_v3"
  componentLifecycleStats :: "string \<rightharpoonup> coverage_stats_v3"
  callbackStats :: "string \<rightharpoonup> coverage_stats_v3"

definition newAnalyzer_v3 :: "entry_method_utils \<Rightarrow> analyzer_v3" where
  "newAnalyzer_v3 cat =
     \<lparr>lifecycleMethods_v3 = [], callGraph_v3 = None, dataFlows_v3 = [],
      undefinedIssues_v3 = [],
      stats_v3 = \<lparr>totalFiles_v3 = 0, totalClasses_v3 = 0, totalMethods_v3 = 0,
                  abilityClasses_v3 = 0, componentClasses_v3 = 0,
                  lifecycleMethodCount_v3 = 0, callGraphNodes_v3 = 0, callGraphEdges_v3 = 0,
                  dataFlowPaths_v3 = 0, undefinedIssueCount_v3 = 0\<rparr>,
      abilityLifecycleStats = initializeTable unusedStat_v3 (LIFECYCLE_METHOD_NAME cat),
      componentLifecycleStats =
        initializeTable unusedStat_v3 (COMPONENT_LIFECYCLE_METHOD_NAME cat),
      callbackStats = initializeTable unusedStat_v3 (CALLBACK_METHOD_NAME cat)\<rparr>"

text \<open>\<^verbatim>\<open>method.getLineCol() || 0\<close> and the test for an implementation.\<close>

definition lineColOrZero :: "ark_method \<Rightarrow> int" where
  "lineColOrZero method = (case methodLineCol method of None \<Rightarrow> 0 | Some n \<Rightarrow> n)"

definition hasImpl :: "ark_method \<Rightarrow> bool" where
  "hasImpl method = (case methodCfg method of None \<Rightarrow> False | Some cfg \<Rightarrow> cfg \<noteq> [])"

definition lifecycleRecord_v3 :: "lifecycle_type \<Rightarrow> string \<Rightarrow> string \<Rightarrow> ark_method \<Rightarrow>
    lifecycle_method_info" where
  "lifecycleRecord_v3 ty fName clsName method =
     \<lparr>lmMethod = method, lmType = ty, lmPhase = methodName method,
      lmClassName = clsName, lmFilePath = fName,
      lmLineNo = lineColOrZero method,
      lmHasImplementation = hasImpl method\<rparr>"

definition recordAbility_v3 :: "string \<Rightarrow> string \<Rightarrow> ark_method \<Rightarrow> analyzer_v3 \<Rightarrow>
    error + analyzer_v3" where
  "recordAbility_v3 fName clsName method st =
     (let st1 = st\<lparr>lifecycleMethods_v3 := lifecycleMethods_v3 st @
                   [lifecycleRecord_v3 ABILITY fName clsName method]\<rparr>
      in case recordUsage_v3 (methodName method) clsName fName (abilityLifecycleStats st1) of
           Inl e \<Rightarrow> Inl e
         | Inr tbl \<Rightarrow> Inr (st1\<lparr>abilityLifecycleStats := tbl\<rparr>))"

definition recordComponent_v3 :: "string \<Rightarrow> string \<Rightarrow> ark_method \<Rightarrow> analyzer_v3 \<Rightarrow>
    error + analyzer_v3" where
  "recordComponent_v3 fName clsName method st =
     (let st1 = st\<lparr>lifecycleMethods_v3 := lifecycleMethods_v3 st @
                   [lifecycleRecord_v3 COMPONENT fName clsName method]\<rparr>
      in case recordUsage_v3 (methodName method) clsName fName (componentLifecycleStats st1) of
           Inl e \<Rightarrow> Inl e
         | Inr tbl \<Rightarrow> Inr (st1\<lparr>componentLifecycleStats := tbl\<rparr>))"

definition visitMethod_v3 :: "entry_method_utils \<Rightarrow> string \<Rightarrow> string \<Rightarrow> bool \<Rightarrow> bool \<Rightarrow>
    ark_method \<Rightarrow> analyzer_v3 \<Rightarrow> error + analyzer_v3" where
  "visitMethod_v3 cat fName clsName isAbility isComponent method st =
     (let st0 = st\<lparr>stats_v3 := (stats_v3 st)
                   \<lparr>totalMethods_v3 := totalMethods_v3 (stats_v3 st) + 1\<rparr>\<rparr>
      in case (if isAbility \<and> methodName method \<in> set (LIFECYCLE_METHOD_NAME cat)
               then recordAbility_v3 fName clsName method st0
               else Inr st0) of
           Inl e \<Rightarrow> Inl e
         | Inr st1 \<Rightarrow>
             if isComponent \<and> methodName method \<in> set (COMPONENT_LIFECYCLE_METHOD_NAME cat)
             then recordComponent_v3 fName clsName method st1
             else Inr st1)"

definition countClass_v3 :: "bool \<Rightarrow> bool \<Rightarrow> analyzer_v3 \<Rightarrow> analyzer_v3" where
  "countClass_v3 isAbility isComponent st =
     (let st1 = (if isAbility
                 then st\<lparr>stats_v3 := (stats_v3 st)
                        \<lparr>abilityClasses_v3 := abilityClasses_v3 (stats_v3 st) + 1\<rparr>\<rparr>
                 else st)
      in if isComponent
         then st1\<lparr>stats_v3 := (stats_v3 st1)
                \<lparr>componentClasses_v3 := componentClasses_v3 (stats_v3 st1) + 1\<rparr>\<rparr>
         else st1)"

definition visitClass_v3 :: "entry_method_utils \<Rightarrow> (cid \<Rightarrow> ark_class) \<Rightarrow> string \<Rightarrow> cid \<Rightarrow>
    analyzer_v3 \<Rightarrow> (error + analyzer_v3) option" where
  "visitClass_v3 cat heap fName c st =
     (let cls = heap c in
      if skipsClass_v3 (className cls) then Some (Inr st)
      else
        let st1 = st\<lparr>stats_v3 := (stats_v3 st)
                     \<lparr>totalClasses_v3 := totalClasses_v3 (stats_v3 st) + 1\<rparr>\<rparr>
        in (case isAbilityClass_v3 heap cls of
              None \<Rightarrow> None
            | Some isAbility \<Rightarrow>
                let isComponent = isComponentClass_v3 cls in
                Some (foldE (visitMethod_v3 cat fName (className cls) isAbility isComponent)
                        (classMethods cls) (countClass_v3 isAbility isComponent st1))))"

definition visitFile_v3 :: "entry_method_utils \<Rightarrow> (cid \<Rightarrow> ark_class) \<Rightarrow> ark_file \<Rightarrow>
    analyzer_v3 \<Rightarrow> (error + analyzer_v3) option" where
  "visitFile_v3 cat heap file st =
     (if isTestFile (fileName file) then Some (Inr st)
      else foldR (visitClass_v3 cat heap (fileName file)) (fileClasses file) st)"

definition setLifecycleCount_v3 :: "analyzer_v3 \<Rightarrow> analyzer_v3" where
  "setLifecycleCount_v3 st =
     st\<lparr>stats_v3 := (stats_v3 st)\<lparr>lifecycleMethodCount_v3 := length (lifecycleMethods_v3 st)\<rparr>\<rparr>"

definition identifyLifecycleMethods_v3 :: "entry_method_utils \<Rightarrow> scene \<Rightarrow> analyzer_v3 \<Rightarrow>
    (error + analyzer_v3) option" where
  "identifyLifecycleMethods_v3 cat sc st =
     (case foldR (visitFile_v3 cat (sceneClass sc)) (sceneFiles sc)
             (st\<lparr>stats_v3 := (stats_v3 st)\<lparr>totalFiles_v3 := length (sceneFiles sc)\<rparr>\<rparr>) of
        None \<Rightarrow> None
      | Some (Inl e) \<Rightarrow> Some (Inl e)
      | Some (Inr st') \<Rightarrow> Some (Inr (setLifecycleCount_v3 st')))"

definition setCallGraph_v3 :: "call_graph \<Rightarrow> analyzer_v3 \<Rightarrow> analyzer_v3" where
  "setCallGraph_v3 cg st =
     st\<lparr>callGraph_v3 := Some cg,
        stats_v3 := (stats_v3 st)
          \<lparr>callGraphNodes_v3 := cgNodeNum cg, callGraphEdges_v3 := cgEdgeNum cg\<rparr>\<rparr>"

definition buildCallGraph_v3 :: "call_graph_env \<Rightarrow> analyzer_v3 \<Rightarrow> analyzer_v3" where
  "buildCallGraph_v3 env st =
     (case createDummyMain env of
        Inl _ \<Rightarrow> st
      | Inr _ \<Rightarrow>
          if dummyMainSignatures env \<noteq> []
          then (case makeCallGraphCHA env (dummyMainSignatures env) of
                  Inl _ \<Rightarrow> st
                | Inr cg \<Rightarrow> setCallGraph_v3 cg st)
          else
            let lifecycleEntryPoints =
                  map (\<lambda>lm. methodSignature (lmMethod lm)) (lifecycleMethods_v3 st)
            in if lifecycleEntryPoints \<noteq> []
               then (case makeCallGraphCHA env lifecycleEntryPoints of
                       Inl _ \<Rightarrow> st
                     | Inr cg \<Rightarrow> setCallGraph_v3 cg st)
               else st)"

definition analyzeUndefinedVariables_v3 :: "solver \<Rightarrow> analyzer_v3 \<Rightarrow> analyzer_v3" where
  "analyzeUndefinedVariables_v3 solve st =
     (let acc = fold (analyzeLifecycleMethod_v3 solve) (lifecycleMethods_v3 st)
                  \<lparr>uvAnalyzedCount = 0, uvIssueCount = 0, uvIssues = undefinedIssues_v3 st\<rparr>
      in st\<lparr>undefinedIssues_v3 := uvIssues acc,
            stats_v3 := (stats_v3 st)\<lparr>undefinedIssueCount_v3 := uvIssueCount acc\<rparr>\<rparr>)"

definition analyzeDataFlow_v3 :: "analyzer_v3 \<Rightarrow> analyzer_v3" where
  "analyzeDataFlow_v3 st =
     (case callGraph_v3 st of
        None \<Rightarrow> st
      | Some _ \<Rightarrow>
          let flows = fold (analyzeMethodDataFlow) (lifecycleMethods_v3 st) (dataFlows_v3 st)
          in st\<lparr>dataFlows_v3 := flows,
                stats_v3 := (stats_v3 st)\<lparr>dataFlowPaths_v3 := length flows\<rparr>\<rparr>)"

text \<open>
  The state-changing steps of the main function \<^verbatim>\<open>analyzeOpenEyeLifecycleV3\<close>, in its
  order; the reports and exports that follow only read the analyzer.
\<close>

definition analyzeOpenEyeLifecycleV3 :: "entry_method_utils \<Rightarrow> call_graph_env \<Rightarrow> solver \<Rightarrow>
    scene \<Rightarrow> (error + analyzer_v3) option" where
  "analyzeOpenEyeLifecycleV3 cat env solve sc =
     (case identifyLifecycleMethods_v3 cat sc (newAnalyzer_v3 cat) of
        None \<Rightarrow> None
      | Some (Inl e) \<Rightarrow> Some (Inl e)
      | Some (Inr st) \<Rightarrow>
          Some (Inr (analyzeDataFlow_v3
                       (analyzeUndefinedVariables_v3 solve (buildCallGraph_v3 env st)))))"

section \<open>Notions used in the statements\<close>

text \<open>
  The invariant of a coverage entry, in the words of the data model: the entry is used
  exactly when its usage count is positive, exactly when its class collection is not
  empty. A table satisfies it when every entry does.
\<close>

definition coverageInv :: "'a coverage_stats_scheme \<Rightarrow> bool" where
  "coverageInv s =
     ((csIsUsed s \<longleftrightarrow> 0 < csUsageCount s) \<and> (0 < csUsageCount s \<longleftrightarrow> csClasses s \<noteq> []))"

definition tableInv :: "(string \<rightharpoonup> 'a coverage_stats_scheme) \<Rightarrow> bool" where
  "tableInv tbl = (\<forall>name s. tbl name = Some s \<longrightarrow> coverageInv s)"

definition statGrows :: "'a coverage_stats_scheme \<Rightarrow> 'a coverage_stats_scheme \<Rightarrow> bool" where
  "statGrows s s' =
     (csUsageCount s \<le> csUsageCount s' \<and> prefix (csClasses s) (csClasses s') \<and>
      (csIsUsed s \<longrightarrow> csIsUsed s'))"

definition tableGrows :: "(string \<rightharpoonup> 'a coverage_stats_scheme) \<Rightarrow>
    (string \<rightharpoonup> 'a coverage_stats_scheme) \<Rightarrow> bool" where
  "tableGrows tbl tbl' =
     (\<forall>name s. tbl name = Some s \<longrightarrow> (\<exists>s'. tbl' name = Some s' \<and> statGrows s s'))"

text \<open>The two lifecycle tables of an analyzer satisfy the invariant and have grown.\<close>

definition tablesOk_v2 :: "analyzer_v2 \<Rightarrow> analyzer_v2 \<Rightarrow> bool" where
  "tablesOk_v2 st0 st =
     (tableInv (abilityLifecycleStats_v2 st) \<and> tableInv (componentLifecycleStats_v2 st) \<and>
      tableGrows (abilityLifecycleStats_v2 st0) (abilityLifecycleStats_v2 st) \<and>
      tableGrows (componentLifecycleStats_v2 st0) (componentLifecycleStats_v2 st))"

definition tablesOk_v3 :: "analyzer_v3 \<Rightarrow> analyzer_v3 \<Rightarrow> bool" where
  "tablesOk_v3 st0 st =
     (tableInv (abilityLifecycleStats st) \<and> tableInv (componentLifecycleStats st) \<and>
      tableGrows (abilityLifecycleStats st0) (abilityLifecycleStats st) \<and>
      tableGrows (componentLifecycleStats st0) (componentLifecycleStats st))"

text \<open>Every catalog name has an entry in the table of its partition.\<close>

definition keysOk :: "entry_method_utils \<Rightarrow> analyzer_v3 \<Rightarrow> bool" where
  "keysOk cat st =
     (set (LIFECYCLE_METHOD_NAME cat) \<subseteq> dom (abilityLifecycleStats st) \<and>
      set (COMPONENT_LIFECYCLE_METHOD_NAME cat) \<subseteq> dom (componentLifecycleStats st))"

text \<open>
  The records of one run are kept, in order, by another run whose tables have an entry for
  every name of its catalog.
\<close>

definition recordsKept :: "entry_method_utils \<Rightarrow> analyzer_v3 \<Rightarrow> analyzer_v3 \<Rightarrow> bool" where
  "recordsKept cat' s t =
     (subseq (lifecycleMethods_v3 s) (lifecycleMethods_v3 t) \<and> keysOk cat' t)"

text \<open>The scene without its test files, and the file counters set to a given number.\<close>

definition withoutTestFiles :: "scene \<Rightarrow> scene" where
  "withoutTestFiles sc =
     sc\<lparr>sceneFiles := filter (\<lambda>file. \<not> isTestFile (fileName file)) (sceneFiles sc)\<rparr>"

definition setTotalFiles :: "nat \<Rightarrow> analyzer \<Rightarrow> analyzer" where
  "setTotalFiles n st = st\<lparr>stats := (stats st)\<lparr>totalFiles := n\<rparr>\<rparr>"

definition setTotalFiles_v3 :: "nat \<Rightarrow> analyzer_v3 \<Rightarrow> analyzer_v3" where
  "setTotalFiles_v3 n st = st\<lparr>stats_v3 := (stats_v3 st)\<lparr>totalFiles_v3 := n\<rparr>\<rparr>"

definition setTotalFiles_oe :: "nat \<Rightarrow> analyzer_oe \<Rightarrow> analyzer_oe" where
  "setTotalFiles_oe n st = st\<lparr>stats_oe := (stats_oe st)\<lparr>totalFiles_oe := n\<rparr>\<rparr>"

text \<open>
  A record of version 1 whose class version 3 does not skip; and the records of that kind
  of a run of version 1 are found, in order, among the records of a run of version 3 (cut
  down to the fields that version 1 has).
\<close>

definition scannedClass_v3 :: "lifecycle_method \<Rightarrow> bool" where
  "scannedClass_v3 r = (\<not> skipsClass_v3 (lmClassName r))"

definition recordsFound :: "entry_method_utils \<Rightarrow> analyzer \<Rightarrow> analyzer_v3 \<Rightarrow> bool" where
  "recordsFound cat s t =
     (subseq (filter scannedClass_v3 (lifecycleMethods s))
        (map lifecycle_method.truncate (lifecycleMethods_v3 t)) \<and>
      keysOk cat t)"

section \<open>Example program models\<close>

text \<open>A statement that mentions both \<^verbatim>\<open>undefined\<close> and \<^verbatim>\<open>null\<close>, in a component's callback.\<close>

definition riskyStmt :: ark_stmt where
  "riskyStmt = \<lparr>stmtText = ''a = undefined ?? null'', stmtExprs = [], stmtLineNo = 7\<rparr>"

definition dialogMethod :: ark_method where
  "dialogMethod =
     \<lparr>methodName = ''aboutToAppear'', methodSignature = ''Dialog.aboutToAppear'',
      methodLineCol = Some 3, methodCfg = Some [[riskyStmt]]\<rparr>"

definition dialogRecord :: lifecycle_method where
  "dialogRecord =
     \<lparr>lmMethod = dialogMethod, lmType = COMPONENT, lmPhase = ''aboutToAppear'',
      lmClassName = ''Dialog'', lmFilePath = ''Dialog.ets''\<rparr>"

definition emptyLoop :: "'i uv_loop" where
  "emptyLoop = \<lparr>uvAnalyzedCount = 0, uvIssueCount = 0, uvIssues = []\<rparr>"

text \<open>A solver that throws on every method, and an analyzer that has found the callback.\<close>

definition throwingSolver :: solver where
  "throwingSolver = (\<lambda>stmt method. Inl SolverError)"

definition dialogAnalyzer :: analyzer where
  "dialogAnalyzer = newAnalyzer\<lparr>lifecycleMethods := [dialogRecord]\<rparr>"

text \<open>A statement that matches two of the checks of \<^verbatim>\<open>OpenEyeAnalyzer.checkStatement\<close>.\<close>

definition arrayStmt :: ark_stmt where
  "arrayStmt = \<lparr>stmtText = ''x = arrayload items undefined'', stmtExprs = [], stmtLineNo = 12\<rparr>"

text \<open>
  A statement whose text contains the marker \<^verbatim>\<open>invoke\<close> and that has no expression (it
  assigns a constant to a local), and a statement with one invocation expression.
\<close>

definition counterStmt :: ark_stmt where
  "counterStmt = \<lparr>stmtText = ''invokeCount = 0'', stmtExprs = [], stmtLineNo = 20\<rparr>"

definition popStmt :: ark_stmt where
  "popStmt =
     \<lparr>stmtText = ''instanceinvoke router.<@router.ets: .pop()>()'',
      stmtExprs = [''instanceinvoke router.<@router.ets: .pop()>()''],
      stmtLineNo = 21\<rparr>"

definition flowMethod :: ark_method where
  "flowMethod =
     \<lparr>methodName = ''aboutToAppear'', methodSignature = ''Dialog.aboutToAppear'',
      methodLineCol = Some 3, methodCfg = Some [[counterStmt, popStmt]]\<rparr>"

definition flowRecord :: lifecycle_method where
  "flowRecord =
     \<lparr>lmMethod = flowMethod, lmType = COMPONENT, lmPhase = ''aboutToAppear'',
      lmClassName = ''Dialog'', lmFilePath = ''Dialog.ets''\<rparr>"

text \<open>Two classes that name each other as superclass; neither name is an ability base.\<close>

definition cyclicHeap :: "cid \<Rightarrow> ark_class" where
  "cyclicHeap c =
     (if c = 0
      then \<lparr>className = ''PageA'', superClassName = ''PageB'', superClass = Some 1,
             decorators = [], classMethods = []\<rparr>
      else \<lparr>className = ''PageB'', superClassName = ''PageA'', superClass = Some 0,
             decorators = [], classMethods = []\<rparr>)"

text \<open>
  An ability whose superclass chain runs into those two classes, and a component whose
  chain reaches them through one more class; no class of the second chain has a
  superclass name of a base set.
\<close>

definition tailHeap :: "cid \<Rightarrow> ark_class" where
  "tailHeap c =
     (if c = 0
      then \<lparr>className = ''Home'', superClassName = ''UIAbility'', superClass = Some 1,
             decorators = [], classMethods = []\<rparr>
      else if c = 1
      then \<lparr>className = ''PageA'', superClassName = ''PageB'', superClass = Some 2,
             decorators = [], classMethods = []\<rparr>
      else \<lparr>className = ''PageB'', superClassName = ''PageA'', superClass = Some 1,
             decorators = [], classMethods = []\<rparr>)"

definition lateHeap :: "cid \<Rightarrow> ark_class" where
  "lateHeap c =
     (if c = 0
      then \<lparr>className = ''Detail'', superClassName = ''Middle'', superClass = Some 1,
             decorators = [''Component''], classMethods = []\<rparr>
      else if c = 1
      then \<lparr>className = ''Middle'', superClassName = ''PageA'', superClass = Some 2,
             decorators = [], classMethods = []\<rparr>
      else if c = 2
      then \<lparr>className = ''PageA'', superClassName = ''PageB'', superClass = Some 3,
             decorators = [], classMethods = []\<rparr>
      else \<lparr>className = ''PageB'', superClassName = ''PageA'', superClass = Some 2,
             decorators = [], classMethods = []\<rparr>)"

text \<open>
  A class that extends \<^verbatim>\<open>ViewPU\<close> by name and whose resolved superclass extends
  \<^verbatim>\<open>UIAbility\<close> (a framework class that is not in the scene): it matches both base sets.
\<close>

definition onCreateMethod :: ark_method where
  "onCreateMethod =
     \<lparr>methodName = ''onCreate'', methodSignature = ''EntryView.onCreate'',
      methodLineCol = Some 5, methodCfg = None\<rparr>"

definition aboutToAppearMethod :: ark_method where
  "aboutToAppearMethod =
     \<lparr>methodName = ''aboutToAppear'', methodSignature = ''EntryView.aboutToAppear'',
      methodLineCol = Some 9, methodCfg = None\<rparr>"

definition dualHeap :: "cid \<Rightarrow> ark_class" where
  "dualHeap c =
     (if c = 0
      then \<lparr>className = ''EntryView'', superClassName = ''ViewPU'', superClass = Some 1,
             decorators = [], classMethods = [onCreateMethod, aboutToAppearMethod]\<rparr>
      else \<lparr>className = ''BaseAbility'', superClassName = ''UIAbility'', superClass = None,
             decorators = [], classMethods = []\<rparr>)"

definition dualScene :: scene where
  "dualScene =
     \<lparr>sceneFiles = [\<lparr>fileName = ''EntryView.ets'', fileClasses = [0]\<rparr>],
      sceneClass = dualHeap\<rparr>"

text \<open>
  Two catalog configurations: the lists that version 1 has built in, and the lists of the
  version 3 README (26 Ability names and the Component names it enumerates); the callback
  list of both is a short example list.
\<close>

definition minimalCatalog :: entry_method_utils where
  "minimalCatalog =
     \<lparr>LIFECYCLE_METHOD_NAME = ABILITY_LIFECYCLE,
      COMPONENT_LIFECYCLE_METHOD_NAME = COMPONENT_LIFECYCLE,
      CALLBACK_METHOD_NAME = [''onClick'', ''onTouch'']\<rparr>"

definition docCatalog :: entry_method_utils where
  "docCatalog =
     \<lparr>LIFECYCLE_METHOD_NAME =
        [''onCreate'', ''onDestroy'', ''onWindowStageCreate'', ''onWindowStageDestroy'',
         ''onForeground'', ''onBackground'', ''onWindowStageRestore'',
         ''onWindowStageWillDestroy'', ''onNewWant'', ''onConfigurationUpdate'',
         ''onSaveState'', ''onRestore'', ''onBackPressed'', ''onInactive'', ''onActive'',
         ''onContinue'', ''onShare'', ''onPrepareToTerminate'', ''onMemoryLevel'',
         ''onConnect'', ''onDisconnect'', ''onRequest'', ''onDump'', ''onWantParam'',
         ''onSceneCreated'', ''onSceneDestroyed''],
      COMPONENT_LIFECYCLE_METHOD_NAME =
        [''aboutToAppear'', ''aboutToDisappear'', ''build'', ''onPageShow'', ''onPageHide'',
         ''onBackPress'', ''onDidBuild'', ''aboutToReuse'', ''aboutToRecycle'',
         ''onWillApplyTheme'', ''onLayout'', ''onMeasure'', ''onPlaceChildren'',
         ''onMeasureSize'', ''onAreaChange'', ''onVisibleAreaChange'', ''onFormRecycle'',
         ''onFormRecover''],
      CALLBACK_METHOD_NAME = [''onClick'', ''onTouch'']\<rparr>"

text \<open>An external call-graph builder that finds the dummy main and returns a graph.\<close>

definition quietEnv :: call_graph_env where
  "quietEnv =
     \<lparr>createDummyMain = Inr (),
      dummyMainSignatures = [''@dummyMain''],
      makeCallGraphCHA = (\<lambda>entryPoints. Inr \<lparr>cgNodeNum = 1, cgEdgeNum = 0\<rparr>)\<rparr>"

text \<open>An ability with a callback that only the larger Ability catalog lists.\<close>

definition onShareMethod :: ark_method where
  "onShareMethod =
     \<lparr>methodName = ''onShare'', methodSignature = ''EntryAbility.onShare'',
      methodLineCol = Some 30, methodCfg = None\<rparr>"

definition abilityHeap :: "cid \<Rightarrow> ark_class" where
  "abilityHeap c =
     \<lparr>className = ''EntryAbility'', superClassName = ''UIAbility'', superClass = None,
      decorators = [], classMethods = [onCreateMethod, onShareMethod]\<rparr>"

definition abilityScene :: scene where
  "abilityScene =
     \<lparr>sceneFiles = [\<lparr>fileName = ''EntryAbility.ets'', fileClasses = [0]\<rparr>],
      sceneClass = abilityHeap\<rparr>"

text \<open>A scene in which the class of the example also appears in a test file.\<close>

definition testFile :: ark_file where
  "testFile = \<lparr>fileName = ''EntryViewTest.ets'', fileClasses = [0]\<rparr>"

definition testScene :: scene where
  "testScene =
     \<lparr>sceneFiles = [testFile, \<lparr>fileName = ''EntryView.ets'', fileClasses = [0]\<rparr>],
      sceneClass = dualHeap\<rparr>"

text \<open>An anonymous class (version 3 skips names with \<^verbatim>\<open>%AC\<close>) that extends an ability.\<close>

definition anonymousHeap :: "cid \<Rightarrow> ark_class" where
  "anonymousHeap c =
     \<lparr>className = ''%AC0'', superClassName = ''UIAbility'', superClass = None,
      decorators = [], classMethods = [onCreateMethod]\<rparr>"

definition anonymousScene :: scene where
  "anonymousScene =
     \<lparr>sceneFiles = [\<lparr>fileName = ''EntryAbility.ets'', fileClasses = [0]\<rparr>],
      sceneClass = anonymousHeap\<rparr>"

text \<open>A scene with an ability and an anonymous class that extends an ability.\<close>

definition mixedHeap :: "cid \<Rightarrow> ark_class" where
  "mixedHeap c =
     (if c = 0
      then \<lparr>className = ''EntryAbility'', superClassName = ''UIAbility'', superClass = None,
             decorators = [], classMethods = [onCreateMethod, onShareMethod]\<rparr>
      else \<lparr>className = ''%AC0'', superClassName = ''UIAbility'', superClass = None,
             decorators = [], classMethods = [onCreateMethod]\<rparr>)"

definition mixedScene :: scene where
  "mixedScene =
     \<lparr>sceneFiles = [\<lparr>fileName = ''EntryAbility.ets'', fileClasses = [0, 1]\<rparr>],
      sceneClass = mixedHeap\<rparr>"

section \<open>Loops: invariants, simulation, skipped elements\<close>

lemma foldE_invariant:
  assumes step: "\<And>x s s'. P s \<Longrightarrow> f x s = Inr s' \<Longrightarrow> P s'"
    and "P s" and "foldE f xs s = Inr s'"
  shows "P s'"
  using assms(2,3)
proof (induction xs arbitrary: s)
  case Nil
  then show ?case by simp
next
  case (Cons x xs)
  from Cons.prems(2) obtain s1 where 1: "f x s = Inr s1" and 2: "foldE f xs s1 = Inr s'"
    by (auto split: sum.splits)
  from Cons.IH [OF step [OF Cons.prems(1) 1] 2] show ?case .
qed

lemma foldR_invariant:
  assumes step: "\<And>x s s'. P s \<Longrightarrow> f x s = Some (Inr s') \<Longrightarrow> P s'"
    and "P s" and "foldR f xs s = Some (Inr s')"
  shows "P s'"
  using assms(2,3)
proof (induction xs arbitrary: s)
  case Nil
  then show ?case by simp
next
  case (Cons x xs)
  from Cons.prems(2) obtain s1 where 1: "f x s = Some (Inr s1)"
    and 2: "foldR f xs s1 = Some (Inr s')"
    by (auto split: option.splits sum.splits)
  from Cons.IH [OF step [OF Cons.prems(1) 1] 2] show ?case .
qed

lemma initializeTable_apply:
  "initializeTable mk names k = (if k \<in> set names then Some (mk k) else None)"
proof -
  have "fold (\<lambda>name tbl. tbl(name \<mapsto> mk name)) names t k =
          (if k \<in> set names then Some (mk k) else t k)" for t
    by (induction names arbitrary: t) auto
  then show ?thesis by (simp add: initializeTable_def)
qed

lemma foldE_simulation:
  assumes step: "\<And>x s t s'. R s t \<Longrightarrow> f x s = Inr s' \<Longrightarrow> \<exists>t'. g x t = Inr t' \<and> R s' t'"
    and "R s t" and "foldE f xs s = Inr s'"
  shows "\<exists>t'. foldE g xs t = Inr t' \<and> R s' t'"
  using assms(2,3)
proof (induction xs arbitrary: s t)
  case Nil
  then show ?case by simp
next
  case (Cons x xs)
  from Cons.prems(2) obtain s1 where 1: "f x s = Inr s1" and 2: "foldE f xs s1 = Inr s'"
    by (auto split: sum.splits)
  from step [OF Cons.prems(1) 1] obtain t1 where t1: "g x t = Inr t1" "R s1 t1" by blast
  from Cons.IH [OF t1(2) 2] t1(1) show ?case by simp
qed

lemma foldR_simulation:
  assumes step: "\<And>x s t s'. R s t \<Longrightarrow> f x s = Some (Inr s') \<Longrightarrow>
      \<exists>t'. g x t = Some (Inr t') \<and> R s' t'"
    and "R s t" and "foldR f xs s = Some (Inr s')"
  shows "\<exists>t'. foldR g xs t = Some (Inr t') \<and> R s' t'"
  using assms(2,3)
proof (induction xs arbitrary: s t)
  case Nil
  then show ?case by simp
next
  case (Cons x xs)
  from Cons.prems(2) obtain s1 where 1: "f x s = Some (Inr s1)"
    and 2: "foldR f xs s1 = Some (Inr s')"
    by (auto split: option.splits sum.splits)
  from step [OF Cons.prems(1) 1] obtain t1 where t1: "g x t = Some (Inr t1)" "R s1 t1" by blast
  from Cons.IH [OF t1(2) 2] t1(1) show ?case by simp
qed

lemma fold_skip:
  assumes "\<And>x s. \<not> keep x \<Longrightarrow> f x s = s"
  shows "fold f (filter keep xs) s = fold f xs s"
  by (induction xs arbitrary: s) (simp_all add: assms)

lemma foldO_skip:
  assumes "\<And>x s. \<not> keep x \<Longrightarrow> f x s = Some s"
  shows "foldO f (filter keep xs) s = foldO f xs s"
  by (induction xs arbitrary: s) (simp_all add: assms split: option.splits)

lemma foldR_skip:
  assumes "\<And>x s. \<not> keep x \<Longrightarrow> f x s = Some (Inr s)"
  shows "foldR f (filter keep xs) s = foldR f xs s"
  by (induction xs arbitrary: s) (simp_all add: assms split: option.splits sum.splits)

lemma fold_commute_update:
  assumes "\<And>x s. f x (u s) = u (f x s)"
  shows "fold f xs (u s) = u (fold f xs s)"
  by (induction xs arbitrary: s) (simp_all add: assms)

lemma foldO_commute_update:
  assumes "\<And>x s. f x (u s) = map_option u (f x s)"
  shows "foldO f xs (u s) = map_option u (foldO f xs s)"
  by (induction xs arbitrary: s) (simp_all add: assms split: option.splits)

lemma foldE_commute_update:
  assumes "\<And>x s. f x (u s) = map_sum id u (f x s)"
  shows "foldE f xs (u s) = map_sum id u (foldE f xs s)"
  by (induction xs arbitrary: s) (simp_all add: assms split: sum.splits)

lemma foldR_commute_update:
  assumes "\<And>x s. f x (u s) = map_option (map_sum id u) (f x s)"
  shows "foldR f xs (u s) = map_option (map_sum id u) (foldR f xs s)"
  by (induction xs arbitrary: s) (simp_all add: assms split: option.splits sum.splits)

section \<open>Results on the risk heuristics\<close>

lemma includesStr_Nil [simp]: "includesStr s []"
  by (induction s) (simp_all add: startsWith_def)

text \<open>
  C6. A statement whose rendered text contains both \<^verbatim>\<open>undefined\<close> and \<^verbatim>\<open>null\<close> is reported,
  by the statement check of versions 1 and 3, with exactly one issue, of severity high.
\<close>

theorem undefined_and_null_is_high:
  assumes "includesStr (stmtText stmt) ''undefined''" and "includesStr (stmtText stmt) ''null''"
  shows "assessSeverity (stmtText stmt) = High
       \<and> map uiSeverity (uvIssues (checkStmt lm stmt acc)) = map uiSeverity (uvIssues acc) @ [High]
       \<and> map uiSeverity (uvIssues (checkStmt_v3 lm stmt acc'))
           = map uiSeverity (uvIssues acc') @ [High]"
  using assms
  by (simp add: assessSeverity_def checkStmt_def checkStmt_v3_def containsUndefinedRisk_def
      issueOf_def issueOf_v3_def)

theorem undefined_and_null_is_high_witness:
  "map uiSeverity (uvIssues (checkStmt dialogRecord riskyStmt emptyLoop)) = [High]
   \<and> map uiSeverity (uvIssues (checkStmt_v3 dialogRecord riskyStmt emptyLoop)) = [High]"
proof -
  have h1: "includesStr (stmtText riskyStmt) ''undefined''"
    by (simp add: riskyStmt_def startsWith_def)
  have h2: "includesStr (stmtText riskyStmt) ''null''"
    by (simp add: riskyStmt_def startsWith_def)
  from undefined_and_null_is_high [OF h1 h2, of dialogRecord emptyLoop emptyLoop]
  show ?thesis by (simp add: emptyLoop_def)
qed

lemma checkStmt_issues:
  "uvIssues (checkStmt lm stmt acc) =
     uvIssues acc @ (if containsUndefinedRisk (stmtText stmt) then [issueOf lm stmt] else [])"
  by (simp add: checkStmt_def)

lemma checkStmt_v3_issues:
  "uvIssues (checkStmt_v3 lm stmt acc) =
     uvIssues acc @ (if containsUndefinedRisk (stmtText stmt) then [issueOf_v3 lm stmt] else [])"
  by (simp add: checkStmt_v3_def)

lemma checkStatement_count:
  "length (issues_oe (checkStatement stmt m c f st)) =
     length (issues_oe st)
     + (if includesStr (stmtText stmt) ''undefined'' then 1 else 0)
     + (if includesStr (stmtText stmt) ''fieldload'' \<and> includesStr (stmtText stmt) ''null''
        then 1 else 0)
     + (if includesStr (stmtText stmt) ''arrayload'' then 1 else 0)"
  by (simp add: checkStatement_def addIssue_def Let_def)

text \<open>
  C5, as the claim states it, fails for \<^verbatim>\<open>OpenEyeAnalyzer.checkStatement\<close>: a statement that
  contains \<^verbatim>\<open>undefined\<close> and \<^verbatim>\<open>arrayload\<close> gets two issues.
\<close>

theorem checkStatement_two_issues:
  "\<not> length (issues_oe (checkStatement arrayStmt dialogMethod ''Dialog'' ''Dialog.ets''
                          newAnalyzer_oe)) \<le> 1"
  by (simp add: checkStatement_count arrayStmt_def newAnalyzer_oe_def startsWith_def)

text \<open>
  C5, amended. The statement check of the lifecycle analyzers (versions 1 and 3) adds at
  most one issue per statement: one when the text matches a risk pattern, none otherwise.
  \<^verbatim>\<open>OpenEyeAnalyzer.checkStatement\<close> makes three independent checks (the undefined token;
  \<^verbatim>\<open>fieldload\<close> together with \<^verbatim>\<open>null\<close>; \<^verbatim>\<open>arrayload\<close>) and adds one issue for each check that
  matches, up to three per statement.
\<close>

theorem issues_per_statement:
  "length (uvIssues (checkStmt lm stmt acc)) =
     length (uvIssues acc) + (if containsUndefinedRisk (stmtText stmt) then 1 else 0)
   \<and> length (uvIssues (checkStmt lm stmt acc)) \<le> length (uvIssues acc) + 1
   \<and> length (uvIssues (checkStmt_v3 lm stmt acc')) =
     length (uvIssues acc') + (if containsUndefinedRisk (stmtText stmt) then 1 else 0)
   \<and> length (uvIssues (checkStmt_v3 lm stmt acc')) \<le> length (uvIssues acc') + 1
   \<and> length (issues_oe (checkStatement stmt m c f st)) =
     length (issues_oe st)
     + (if includesStr (stmtText stmt) ''undefined'' then 1 else 0)
     + (if includesStr (stmtText stmt) ''fieldload'' \<and> includesStr (stmtText stmt) ''null''
        then 1 else 0)
     + (if includesStr (stmtText stmt) ''arrayload'' then 1 else 0)
   \<and> length (issues_oe (checkStatement stmt m c f st)) \<le> length (issues_oe st) + 3"
  by (simp add: checkStmt_issues checkStmt_v3_issues checkStatement_count)

section \<open>Results on the solver's failure\<close>

text \<open>
  C1, as the claim states it, fails: with a solver that throws, the statement scan of the
  method alone reports the risky statement, and the analyzer records nothing.
\<close>

theorem solver_failure_drops_issues:
  "uvIssues (fold (checkStmt dialogRecord) (getStmts [[riskyStmt]]) emptyLoop)
     = [issueOf dialogRecord riskyStmt]
   \<and> undefinedIssues (analyzeUndefinedVariables throwingSolver dialogAnalyzer) = []"
  by (simp add: getStmts_def checkStmt_def containsUndefinedRisk_def riskyStmt_def
      startsWith_def emptyLoop_def analyzeUndefinedVariables_def dialogAnalyzer_def
      newAnalyzer_def analyzeLifecycleMethod_def dialogRecord_def dialogMethod_def
      throwingSolver_def)

text \<open>
  C1, amended. If the solver throws while a lifecycle method is analyzed, the exception is
  swallowed and the pass goes on with the next lifecycle method; the statement scan of
  that method, which follows the solver call inside the same try block, does not run, and
  no issue is recorded for the method (only the count of analyzed methods grows).
\<close>

theorem solver_failure_skips_scan:
  assumes "methodCfg (lmMethod lm) = Some ((firstStmt # b) # bs)"
      and "solve firstStmt (lmMethod lm) = Inl e"
  shows "analyzeLifecycleMethod solve lm acc = acc\<lparr>uvAnalyzedCount := uvAnalyzedCount acc + 1\<rparr>
       \<and> fold (analyzeLifecycleMethod solve) (lm # rest) acc =
           fold (analyzeLifecycleMethod solve) rest
             (acc\<lparr>uvAnalyzedCount := uvAnalyzedCount acc + 1\<rparr>)
       \<and> analyzeLifecycleMethod_v3 solve lm acc' =
           acc'\<lparr>uvAnalyzedCount := uvAnalyzedCount acc' + 1\<rparr>
       \<and> fold (analyzeLifecycleMethod_v3 solve) (lm # rest) acc' =
           fold (analyzeLifecycleMethod_v3 solve) rest
             (acc'\<lparr>uvAnalyzedCount := uvAnalyzedCount acc' + 1\<rparr>)"
  using assms by (simp add: analyzeLifecycleMethod_def analyzeLifecycleMethod_v3_def)

theorem solver_failure_skips_scan_witness:
  "analyzeLifecycleMethod throwingSolver dialogRecord emptyLoop =
     \<lparr>uvAnalyzedCount = 1, uvIssueCount = 0, uvIssues = []\<rparr>
   \<and> analyzeLifecycleMethod_v3 throwingSolver dialogRecord emptyLoop =
     \<lparr>uvAnalyzedCount = 1, uvIssueCount = 0, uvIssues = []\<rparr>"
proof -
  have h1: "methodCfg (lmMethod dialogRecord) = Some ((riskyStmt # []) # [])"
    by (simp add: dialogRecord_def dialogMethod_def)
  have h2: "throwingSolver riskyStmt (lmMethod dialogRecord) = Inl SolverError"
    by (simp add: throwingSolver_def)
  from solver_failure_skips_scan [where solve = throwingSolver and lm = dialogRecord
      and acc = emptyLoop and acc' = emptyLoop and rest = "[]", OF h1 h2]
  show ?thesis by (simp add: emptyLoop_def)
qed

section \<open>Results on data-flow extraction\<close>

lemma analyzeExpr_append: "analyzeExpr lm stmt e flows = flows @ analyzeExpr lm stmt e []"
  by (simp add: analyzeExpr_def Let_def)

lemma fold_analyzeExpr:
  "fold (analyzeExpr lm stmt) es flows =
     flows @ concat (map (\<lambda>e. analyzeExpr lm stmt e []) es)"
proof (induction es arbitrary: flows)
  case Nil
  show ?case by simp
next
  case (Cons e es)
  show ?case using analyzeExpr_append [of lm stmt e flows] by (simp add: Cons.IH)
qed

lemma length_exprs_flows:
  "length (concat (map (\<lambda>e. analyzeExpr lm stmt e []) es)) = length (filter isInvocation es)"
  by (induction es) (simp_all add: analyzeExpr_def Let_def)

lemma analyzeStmtDataFlow_append:
  "analyzeStmtDataFlow lm stmt flows = flows @ analyzeStmtDataFlow lm stmt []"
  unfolding analyzeStmtDataFlow_def
  using fold_analyzeExpr [of lm stmt "stmtExprs stmt" flows]
    fold_analyzeExpr [of lm stmt "stmtExprs stmt" "[]"]
  by simp

lemma length_analyzeStmtDataFlow:
  "length (analyzeStmtDataFlow lm stmt []) = length (filter isInvocation (stmtExprs stmt))"
  unfolding analyzeStmtDataFlow_def
  using fold_analyzeExpr [of lm stmt "stmtExprs stmt" "[]"]
    length_exprs_flows [of lm stmt "stmtExprs stmt"]
  by simp

lemma length_fold_analyzeStmtDataFlow:
  "length (fold (analyzeStmtDataFlow lm) stmts flows) =
     length flows + (\<Sum>stmt\<leftarrow>stmts. length (filter isInvocation (stmtExprs stmt)))"
proof (induction stmts arbitrary: flows)
  case Nil
  show ?case by simp
next
  case (Cons stmt stmts)
  have "length (analyzeStmtDataFlow lm stmt flows) =
          length flows + length (filter isInvocation (stmtExprs stmt))"
    using analyzeStmtDataFlow_append [of lm stmt flows]
      length_analyzeStmtDataFlow [of lm stmt]
    by simp
  then show ?case by (simp add: Cons.IH)
qed

text \<open>The two expressions on an annotated target, on a qualified target and on no call.\<close>

lemma extractMethodFromInvoke_examples:
  "extractMethodFromInvoke ''instanceinvoke router.<@router.ets: .pop()>()''
     = Some ''router.pop''"
  "extractMethodFromInvoke ''instanceinvoke this.<@pages/Index.ets: Index.load()>()''
     = Some ''load''"
  "extractMethodFromInvoke ''callback'' = None"
  by (simp_all add: extractMethodFromInvoke_def matchStrictAt_def matchSimpleAt_def
      startsWith_def isSpaceChar_def isWordChar_def strictTarget_def)

text \<open>
  C4, as the claim states it, fails: a statement whose text contains the marker and that
  has no expression gets no record.
\<close>

theorem marker_statement_without_record:
  "includesStr (stmtText counterStmt) ''invoke''
   \<and> analyzeStmtDataFlow flowRecord counterStmt [] = []"
  by (simp add: counterStmt_def startsWith_def analyzeStmtDataFlow_def)

text \<open>
  C4, amended. Records are made per expression, not per statement: for every statement
  of a scanned method, the records added for it are as many as its expressions whose
  rendered text contains \<^verbatim>\<open>invoke\<close> or \<^verbatim>\<open>call\<close> (none, one or several), they are appended
  to the records already there, and a method with a control-flow graph adds the sum of
  these numbers over its statements.
\<close>

theorem records_per_expression:
  assumes "methodCfg (lmMethod lm) = Some cfg"
  shows "analyzeStmtDataFlow lm stmt flows = flows @ analyzeStmtDataFlow lm stmt []
       \<and> length (analyzeStmtDataFlow lm stmt []) =
           length (filter isInvocation (stmtExprs stmt))
       \<and> length (analyzeMethodDataFlow lm flows) =
           length flows
           + (\<Sum>stmt\<leftarrow>getStmts cfg. length (filter isInvocation (stmtExprs stmt)))"
  using assms analyzeStmtDataFlow_append [of lm stmt flows]
    length_analyzeStmtDataFlow [of lm stmt]
    length_fold_analyzeStmtDataFlow [of lm "getStmts cfg" flows]
  by (simp add: analyzeMethodDataFlow_def)

theorem records_per_expression_witness:
  "length (analyzeStmtDataFlow flowRecord counterStmt []) = 0
   \<and> length (analyzeStmtDataFlow flowRecord popStmt []) = 1
   \<and> length (analyzeMethodDataFlow flowRecord []) = 1"
proof -
  have h: "methodCfg (lmMethod flowRecord) = Some [[counterStmt, popStmt]]"
    by (simp add: flowRecord_def flowMethod_def)
  have inv: "isInvocation ''instanceinvoke router.<@router.ets: .pop()>()''"
    by (simp add: isInvocation_def startsWith_def)
  from records_per_expression [OF h, of counterStmt "[]"]
    records_per_expression [OF h, of popStmt "[]"] inv
  show ?thesis by (simp add: getStmts_def counterStmt_def popStmt_def)
qed

section \<open>Results on role classification\<close>

lemma ancestorWalk_returns:
  "chainEnds heap superCls \<Longrightarrow> \<exists>b. ancestorWalk heap base superCls = Some b"
proof (induction rule: chainEnds.induct)
  case chainEnds_null
  show ?case by (subst ancestorWalk.simps) auto
next
  case (chainEnds_step c)
  then obtain b where b: "ancestorWalk heap base (superClass (heap c)) = Some b" by blast
  show ?case by (subst ancestorWalk.simps) (auto simp: b)
qed

text \<open>
  The walk does not return from a set of classes that it cannot leave and in which no
  class has a superclass name of the base set.
\<close>

lemma ancestorWalk_stays:
  assumes closed: "\<And>c. c \<in> S \<Longrightarrow>
      superClassName (heap c) \<notin> set base \<and> (\<exists>d \<in> S. superClass (heap c) = Some d)"
    and ret: "ancestorWalk h b superCls = Some y"
  shows "\<not> (h = heap \<and> b = base \<and> (\<exists>c \<in> S. superCls = Some c))"
proof (rule ancestorWalk.raw_induct
    [where P = "\<lambda>h b sc y. \<not> (h = heap \<and> b = base \<and> (\<exists>c \<in> S. sc = Some c))", OF _ ret])
  fix walk h b sc and y :: bool
  assume IH: "\<And>h b sc y. walk h b sc = Some y \<Longrightarrow>
                \<not> (h = heap \<and> b = base \<and> (\<exists>c \<in> S. sc = Some c))"
    and body: "(case sc of None \<Rightarrow> Some False
                | Some c \<Rightarrow> if superClassName (h c) \<in> set b then Some True
                            else walk h b (superClass (h c))) = Some y"
  show "\<not> (h = heap \<and> b = base \<and> (\<exists>c \<in> S. sc = Some c))"
  proof
    assume a: "h = heap \<and> b = base \<and> (\<exists>c \<in> S. sc = Some c)"
    then obtain c where c: "c \<in> S" "sc = Some c" by blast
    from closed [OF c(1)] obtain d where d: "d \<in> S" "superClass (heap c) = Some d"
      and nb: "superClassName (heap c) \<notin> set base" by blast
    from body a c nb d have "walk heap base (Some d) = Some y" by simp
    from IH [OF this] d show False by blast
  qed
qed

lemma ancestorWalk_diverges:
  assumes "\<And>c. c \<in> S \<Longrightarrow>
      superClassName (heap c) \<notin> set base \<and> (\<exists>d \<in> S. superClass (heap c) = Some d)"
    and "c \<in> S"
  shows "ancestorWalk heap base (Some c) = None"
proof (cases "ancestorWalk heap base (Some c)")
  case None
  then show ?thesis .
next
  case (Some y)
  from ancestorWalk_stays [of S heap base, OF assms(1) Some] assms(2)
  show ?thesis by blast
qed

text \<open>What the walk returns, and when.\<close>

lemma ancestorWalk_reachesBase:
  "reachesBase heap base superCls \<Longrightarrow> ancestorWalk heap base superCls = Some True"
proof (induction rule: reachesBase.induct)
  case (reachesBase_here c)
  then show ?case by (subst ancestorWalk.simps) simp
next
  case (reachesBase_step c)
  then show ?case by (subst ancestorWalk.simps) simp
qed

lemma ancestorWalk_endsBaseless:
  "endsBaseless heap base superCls \<Longrightarrow> ancestorWalk heap base superCls = Some False"
proof (induction rule: endsBaseless.induct)
  case endsBaseless_null
  show ?case by (subst ancestorWalk.simps) simp
next
  case (endsBaseless_step c)
  then show ?case by (subst ancestorWalk.simps) simp
qed

lemma ancestorWalk_result:
  assumes ret: "ancestorWalk heap base superCls = Some y"
  shows "if y then reachesBase heap base superCls else endsBaseless heap base superCls"
proof (rule ancestorWalk.raw_induct
    [where P = "\<lambda>h b sc y. if y then reachesBase h b sc else endsBaseless h b sc", OF _ ret])
  fix walk h b sc and y :: bool
  assume IH: "\<And>h b sc y. walk h b sc = Some y \<Longrightarrow>
                (if y then reachesBase h b sc else endsBaseless h b sc)"
    and body: "(case sc of None \<Rightarrow> Some False
                | Some c \<Rightarrow> if superClassName (h c) \<in> set b then Some True
                            else walk h b (superClass (h c))) = Some y"
  show "if y then reachesBase h b sc else endsBaseless h b sc"
  proof (cases sc)
    case None
    with body show ?thesis by (auto intro: endsBaseless_null)
  next
    case (Some c)
    show ?thesis
    proof (cases "superClassName (h c) \<in> set b")
      case True
      with body Some show ?thesis by (auto intro: reachesBase_here)
    next
      case False
      with body Some have "walk h b (superClass (h c)) = Some y" by simp
      from IH [OF this] False Some show ?thesis
        by (auto intro: reachesBase_step endsBaseless_step)
    qed
  qed
qed

lemma ancestorWalk_True: "ancestorWalk heap base superCls = Some True \<longleftrightarrow> reachesBase heap base superCls"
  using ancestorWalk_result [of heap base superCls True] ancestorWalk_reachesBase by auto

lemma ancestorWalk_False: "ancestorWalk heap base superCls = Some False \<longleftrightarrow> endsBaseless heap base superCls"
  using ancestorWalk_result [of heap base superCls False] ancestorWalk_endsBaseless by auto

lemma isAbilityClassWith_True:
  "isAbilityClassWith base heap cls = Some True \<longleftrightarrow> hasBaseAncestor base heap cls"
  by (simp add: isAbilityClassWith_def hasBaseAncestor_def ancestorWalk_True)

lemma isAbilityClassWith_False:
  "isAbilityClassWith base heap cls = Some False \<longleftrightarrow> hasNoBaseAncestor base heap cls"
  by (simp add: isAbilityClassWith_def hasNoBaseAncestor_def ancestorWalk_False)

lemma isAbilityClassWith_None:
  "isAbilityClassWith base heap cls = None \<longleftrightarrow>
     \<not> hasBaseAncestor base heap cls \<and> \<not> hasNoBaseAncestor base heap cls"
proof (cases "isAbilityClassWith base heap cls")
  case None
  then show ?thesis
    using isAbilityClassWith_True [of base heap cls] isAbilityClassWith_False [of base heap cls]
    by simp
next
  case (Some y)
  then show ?thesis
    using isAbilityClassWith_True [of base heap cls] isAbilityClassWith_False [of base heap cls]
    by (cases y) auto
qed

text \<open>A chain that runs into a cycle before any base name: the walk stays on it.\<close>

lemma ancestorAt_None [simp]: "ancestorAt heap k None = None"
  by (cases k) simp_all

lemma ancestorAt_add:
  "ancestorAt heap (i + j) superCls = ancestorAt heap j (ancestorAt heap i superCls)"
proof (induction i arbitrary: superCls)
  case 0
  show ?case by simp
next
  case (Suc i)
  show ?case by (cases superCls) (simp_all add: Suc.IH)
qed

lemma ancestorAt_Suc:
  "ancestorAt heap (Suc i) superCls =
     (case ancestorAt heap i superCls of None \<Rightarrow> None | Some c \<Rightarrow> superClass (heap c))"
  using ancestorAt_add [of heap i 1 superCls] by (simp split: option.splits)

lemma cycle_baseless:
  assumes n: "0 < n"
    and again: "ancestorAt heap (k + n) superCls = ancestorAt heap k superCls"
    and first: "\<And>i. i < k + n \<Longrightarrow> baselessAt base heap superCls i"
  shows "baselessAt base heap superCls i"
proof (induction i rule: less_induct)
  case (less i)
  show ?case
  proof (cases "i < k + n")
    case True
    then show ?thesis by (rule first)
  next
    case False
    then obtain m where i: "i = (k + m) + n" 
      by (metis add.assoc add.commute le_Suc_ex not_less)
    have "ancestorAt heap i superCls = ancestorAt heap m (ancestorAt heap (k + n) superCls)"
      unfolding i using ancestorAt_add [of heap "k + n" m superCls] by (simp add: ac_simps)
    also have "\<dots> = ancestorAt heap (k + m) superCls"
      unfolding again by (simp add: ancestorAt_add)
    finally have e: "ancestorAt heap i superCls = ancestorAt heap (k + m) superCls" .
    from n i have "k + m < i" by simp
    from less.IH [OF this] e show ?thesis by (simp add: baselessAt_def)
  qed
qed

lemma ancestorWalk_cycle:
  assumes n: "0 < n"
    and again: "ancestorAt heap (k + n) superCls = ancestorAt heap k superCls"
    and first: "list_all (baselessAt base heap superCls) [0..<k + n]"
  shows "ancestorWalk heap base superCls = None"
proof -
  have all: "baselessAt base heap superCls i" for i
    by (rule cycle_baseless [OF n again]) (use first in \<open>simp add: list_all_iff\<close>)
  define S where "S = {d. \<exists>i. ancestorAt heap i superCls = Some d}"
  from all [of 0] obtain c where c: "superCls = Some c"
    by (auto simp: baselessAt_def split: option.splits)
  then have cS: "c \<in> S" unfolding S_def by (intro CollectI exI [of _ 0]) simp
  have "ancestorWalk heap base (Some c) = None"
  proof (rule ancestorWalk_diverges [where S = S, OF _ cS])
    fix d
    assume "d \<in> S"
    then obtain i where i: "ancestorAt heap i superCls = Some d" by (auto simp: S_def)
    from all [of i] i have nb: "superClassName (heap d) \<notin> set base"
      by (simp add: baselessAt_def)
    from all [of "Suc i"] obtain e where e: "ancestorAt heap (Suc i) superCls = Some e"
      by (auto simp: baselessAt_def split: option.splits)
    with i have "superClass (heap d) = Some e"
      unfolding ancestorAt_Suc [of heap i superCls] by simp
    moreover from e have "e \<in> S" unfolding S_def by blast
    ultimately show "superClassName (heap d) \<notin> set base \<and> (\<exists>d' \<in> S. superClass (heap d) = Some d')"
      using nb by blast
  qed
  with c show ?thesis by simp
qed

lemma isAbilityClassWith_cycle:
  "entersCycle base heap cls k n \<Longrightarrow> isAbilityClassWith base heap cls = None"
  by (auto simp: entersCycle_def isAbilityClassWith_def intro: ancestorWalk_cycle)

text \<open>
  C2, as the claim states it, fails: on two classes that are each other's superclass,
  classification does not return, in version 1 and in version 3.
\<close>

theorem classification_loops_on_cycle:
  "classify cyclicHeap (cyclicHeap 0) = None \<and> classify_v3 cyclicHeap (cyclicHeap 0) = None"
proof -
  have a: "ancestorWalk cyclicHeap ABILITY_BASE (Some 1) = None"
    by (rule ancestorWalk_diverges [where S = UNIV])
      (auto simp: cyclicHeap_def ABILITY_BASE_def)
  have b: "ancestorWalk cyclicHeap ABILITY_BASE_v3 (Some 1) = None"
    by (rule ancestorWalk_diverges [where S = UNIV])
      (auto simp: cyclicHeap_def ABILITY_BASE_v3_def)
  have n1: "superClassName (cyclicHeap 0) \<notin> set ABILITY_BASE"
    by (simp add: cyclicHeap_def ABILITY_BASE_def)
  have n3: "superClassName (cyclicHeap 0) \<notin> set ABILITY_BASE_v3"
    by (simp add: cyclicHeap_def ABILITY_BASE_v3_def)
  have s: "superClass (cyclicHeap 0) = Some 1"
    by (simp add: cyclicHeap_def)
  show ?thesis using a b n1 n3 s
    by (simp add: classify_def classify_v3_def isAbilityClass_def isAbilityClass_v3_def
        isAbilityClassWith_def)
qed

text \<open>
  C2, amended. The ancestor walk keeps no visited set, and classification never throws.
  For every class, in all three versions: the Ability check returns true exactly when
  the superclass name of the class is a base name or the walk along the resolved
  superclass references, from the superclass of the class on, reaches a class whose
  superclass name is a base name; it returns false exactly when the superclass name of
  the class is no base name and the walk reaches the end of the chain (a class without
  superclass or an unresolved reference) without meeting a base name; in every other
  case it does not return, in particular when the chain runs into a cycle before any
  base name. So classification returns for every class whose chain of resolved
  superclass references ends, and its result is the pair of the Ability check and the
  Component check.
\<close>

theorem classification_returns:
  "(chainEnds heap (superClass cls) \<longrightarrow>
      (\<exists>isAbility. classify heap cls = Some (isAbility, isComponentClass cls))
    \<and> (\<exists>isAbility. isAbilityClass_v2 heap cls = Some isAbility)
    \<and> (\<exists>isAbility. classify_v3 heap cls = Some (isAbility, isComponentClass_v3 cls)))
   \<and> (classify heap cls = Some (True, isComponentClass cls)
        \<longleftrightarrow> hasBaseAncestor ABILITY_BASE heap cls)
   \<and> (classify heap cls = Some (False, isComponentClass cls)
        \<longleftrightarrow> hasNoBaseAncestor ABILITY_BASE heap cls)
   \<and> (classify heap cls = None
        \<longleftrightarrow> \<not> hasBaseAncestor ABILITY_BASE heap cls \<and> \<not> hasNoBaseAncestor ABILITY_BASE heap cls)
   \<and> (entersCycle ABILITY_BASE heap cls k n \<longrightarrow> classify heap cls = None)
   \<and> (isAbilityClass_v2 heap cls = Some True \<longleftrightarrow> hasBaseAncestor ABILITY_BASE_v2 heap cls)
   \<and> (isAbilityClass_v2 heap cls = Some False \<longleftrightarrow> hasNoBaseAncestor ABILITY_BASE_v2 heap cls)
   \<and> (isAbilityClass_v2 heap cls = None
        \<longleftrightarrow> \<not> hasBaseAncestor ABILITY_BASE_v2 heap cls
            \<and> \<not> hasNoBaseAncestor ABILITY_BASE_v2 heap cls)
   \<and> (entersCycle ABILITY_BASE_v2 heap cls k n \<longrightarrow> isAbilityClass_v2 heap cls = None)
   \<and> (classify_v3 heap cls = Some (True, isComponentClass_v3 cls)
        \<longleftrightarrow> hasBaseAncestor ABILITY_BASE_v3 heap cls)
   \<and> (classify_v3 heap cls = Some (False, isComponentClass_v3 cls)
        \<longleftrightarrow> hasNoBaseAncestor ABILITY_BASE_v3 heap cls)
   \<and> (classify_v3 heap cls = None
        \<longleftrightarrow> \<not> hasBaseAncestor ABILITY_BASE_v3 heap cls
            \<and> \<not> hasNoBaseAncestor ABILITY_BASE_v3 heap cls)
   \<and> (entersCycle ABILITY_BASE_v3 heap cls k n \<longrightarrow> classify_v3 heap cls = None)"
proof -
  have ends: "\<exists>b. isAbilityClassWith base heap cls = Some b"
    if "chainEnds heap (superClass cls)" for base
    using ancestorWalk_returns [OF that, of base] by (auto simp: isAbilityClassWith_def)
  have c1: "classify heap cls = Some (b, isComponentClass cls)
      \<longleftrightarrow> isAbilityClassWith ABILITY_BASE heap cls = Some b" for b
    by (simp add: classify_def isAbilityClass_def split: option.splits)
  have n1: "classify heap cls = None \<longleftrightarrow> isAbilityClassWith ABILITY_BASE heap cls = None"
    by (simp add: classify_def isAbilityClass_def split: option.splits)
  have c3: "classify_v3 heap cls = Some (b, isComponentClass_v3 cls)
      \<longleftrightarrow> isAbilityClassWith ABILITY_BASE_v3 heap cls = Some b" for b
    by (simp add: classify_v3_def isAbilityClass_v3_def split: option.splits)
  have n3: "classify_v3 heap cls = None \<longleftrightarrow> isAbilityClassWith ABILITY_BASE_v3 heap cls = None"
    by (simp add: classify_v3_def isAbilityClass_v3_def split: option.splits)
  have e: "(\<exists>a. classify heap cls = Some (a, isComponentClass cls))
      \<longleftrightarrow> (\<exists>a. isAbilityClassWith ABILITY_BASE heap cls = Some a)"
    "(\<exists>a. classify_v3 heap cls = Some (a, isComponentClass_v3 cls))
      \<longleftrightarrow> (\<exists>a. isAbilityClassWith ABILITY_BASE_v3 heap cls = Some a)"
    by (simp_all add: c1 c3)
  show ?thesis
    unfolding c1 n1 c3 n3 e isAbilityClass_v2_def
      isAbilityClassWith_True isAbilityClassWith_False isAbilityClassWith_None
    using ends isAbilityClassWith_cycle [of _ heap cls k n]
      isAbilityClassWith_None [of _ heap cls]
    by blast
qed

theorem classification_returns_witness:
  "classify dualHeap (dualHeap 0) = Some (True, True)
   \<and> isAbilityClass_v2 dualHeap (dualHeap 0) = Some True
   \<and> classify_v3 dualHeap (dualHeap 0) = Some (True, True)
   \<and> classify tailHeap (tailHeap 0) = Some (True, False)
   \<and> classify_v3 tailHeap (tailHeap 0) = Some (True, False)
   \<and> classify lateHeap (lateHeap 0) = None
   \<and> isAbilityClass_v2 lateHeap (lateHeap 0) = None
   \<and> classify_v3 lateHeap (lateHeap 0) = None"
proof -
  have "chainEnds dualHeap (superClass (dualHeap 1))"
    by (simp add: dualHeap_def chainEnds_null)
  then have "chainEnds dualHeap (Some 1)"
    by (rule chainEnds_step)
  then have h: "chainEnds dualHeap (superClass (dualHeap 0))"
    by (simp add: dualHeap_def)
  from classification_returns [of dualHeap "dualHeap 0" 0 0] h
  have d: "classify dualHeap (dualHeap 0) = Some (True, True)
      \<and> isAbilityClass_v2 dualHeap (dualHeap 0) = Some True
      \<and> classify_v3 dualHeap (dualHeap 0) = Some (True, True)"
    by (simp add: classify_def classify_v3_def isAbilityClass_def isAbilityClass_v2_def
        isAbilityClass_v3_def isAbilityClassWith_def dualHeap_def ABILITY_BASE_def
        ABILITY_BASE_v2_def ABILITY_BASE_v3_def ancestorWalk.simps isComponentClass_def
        isComponentClass_v3_def COMPONENT_BASE_def)
  have t1: "hasBaseAncestor ABILITY_BASE tailHeap (tailHeap 0)"
    "hasBaseAncestor ABILITY_BASE_v3 tailHeap (tailHeap 0)"
    by (simp_all add: hasBaseAncestor_def tailHeap_def ABILITY_BASE_def ABILITY_BASE_v3_def)
  have t2: "\<not> isComponentClass (tailHeap 0)" "\<not> isComponentClass_v3 (tailHeap 0)"
    by (simp_all add: isComponentClass_def isComponentClass_v3_def tailHeap_def
        COMPONENT_BASE_def hasDecorator_def)
  from classification_returns [of tailHeap "tailHeap 0" 0 0] t1 t2
  have t: "classify tailHeap (tailHeap 0) = Some (True, False)
      \<and> classify_v3 tailHeap (tailHeap 0) = Some (True, False)"
    by simp
  have c: "entersCycle ABILITY_BASE lateHeap (lateHeap 0) (Suc 0) (Suc (Suc 0))"
    "entersCycle ABILITY_BASE_v2 lateHeap (lateHeap 0) (Suc 0) (Suc (Suc 0))"
    "entersCycle ABILITY_BASE_v3 lateHeap (lateHeap 0) (Suc 0) (Suc (Suc 0))"
    by (simp_all add: entersCycle_def baselessAt_def lateHeap_def ABILITY_BASE_def
        ABILITY_BASE_v2_def ABILITY_BASE_v3_def)
  from classification_returns [of lateHeap "lateHeap 0" "Suc 0" "Suc (Suc 0)"] c
  have l: "classify lateHeap (lateHeap 0) = None
      \<and> isAbilityClass_v2 lateHeap (lateHeap 0) = None
      \<and> classify_v3 lateHeap (lateHeap 0) = None"
    by blast
  from d t l show ?thesis by blast
qed

section \<open>Results on the records of a class with both roles\<close>

text \<open>
  C3, as the claim states it, fails: the class of the example matches both base sets, and
  version 1 records its \<^verbatim>\<open>aboutToAppear\<close> under the Component partition, next to the Ability
  record of its \<^verbatim>\<open>onCreate\<close>.
\<close>

theorem both_roles_component_record:
  "classify dualHeap (dualHeap 0) = Some (True, True)
   \<and> map_option (\<lambda>st. map lmType (lifecycleMethods st))
        (identifyLifecycleMethods dualScene newAnalyzer) = Some [ABILITY, COMPONENT]"
  by (simp add: identifyLifecycleMethods_def dualScene_def visitFile_def isTestFile_def
      startsWith_def visitClass_def isAbilityClass_def isAbilityClassWith_def dualHeap_def
      ABILITY_BASE_def ancestorWalk.simps isComponentClass_def COMPONENT_BASE_def
      visitMethod_def ABILITY_LIFECYCLE_def COMPONENT_LIFECYCLE_def newAnalyzer_def
      classify_def skipsClass_def onCreateMethod_def aboutToAppearMethod_def
      lifecycleRecord_def)

lemma visitMethod_records:
  "lifecycleMethods (visitMethod fName clsName isAbility isComponent method st) =
     lifecycleMethods st
     @ (if isAbility \<and> methodName method \<in> set ABILITY_LIFECYCLE
        then [lifecycleRecord ABILITY fName clsName method] else [])
     @ (if isComponent \<and> methodName method \<in> set COMPONENT_LIFECYCLE
        then [lifecycleRecord COMPONENT fName clsName method] else [])"
  by (simp add: visitMethod_def Let_def)

lemma fold_visitMethod_records:
  "lifecycleMethods (fold (visitMethod fName clsName isAbility isComponent) ms st) =
     lifecycleMethods st
     @ concat (map (\<lambda>method.
         (if isAbility \<and> methodName method \<in> set ABILITY_LIFECYCLE
          then [lifecycleRecord ABILITY fName clsName method] else [])
         @ (if isComponent \<and> methodName method \<in> set COMPONENT_LIFECYCLE
            then [lifecycleRecord COMPONENT fName clsName method] else [])) ms)"
proof (induction ms arbitrary: st)
  case Nil
  show ?case by simp
next
  case (Cons m ms)
  show ?case by (simp add: Cons.IH visitMethod_records)
qed

lemma visitMethod_v3_records:
  assumes "visitMethod_v3 cat fName clsName isAbility isComponent method st = Inr st'"
  shows "lifecycleMethods_v3 st' =
     lifecycleMethods_v3 st
     @ (if isAbility \<and> methodName method \<in> set (LIFECYCLE_METHOD_NAME cat)
        then [lifecycleRecord_v3 ABILITY fName clsName method] else [])
     @ (if isComponent \<and> methodName method \<in> set (COMPONENT_LIFECYCLE_METHOD_NAME cat)
        then [lifecycleRecord_v3 COMPONENT fName clsName method] else [])"
  using assms
  by (auto simp: visitMethod_v3_def Let_def recordAbility_v3_def recordComponent_v3_def
      split: sum.splits if_splits)

lemma foldE_visitMethod_v3_records:
  "foldE (visitMethod_v3 cat fName clsName isAbility isComponent) ms st = Inr st' \<Longrightarrow>
   lifecycleMethods_v3 st' =
     lifecycleMethods_v3 st
     @ concat (map (\<lambda>method.
         (if isAbility \<and> methodName method \<in> set (LIFECYCLE_METHOD_NAME cat)
          then [lifecycleRecord_v3 ABILITY fName clsName method] else [])
         @ (if isComponent \<and> methodName method \<in> set (COMPONENT_LIFECYCLE_METHOD_NAME cat)
            then [lifecycleRecord_v3 COMPONENT fName clsName method] else [])) ms)"
proof (induction ms arbitrary: st)
  case Nil
  then show ?case by simp
next
  case (Cons m ms)
  from Cons.prems obtain st1 where
    1: "visitMethod_v3 cat fName clsName isAbility isComponent m st = Inr st1"
    and 2: "foldE (visitMethod_v3 cat fName clsName isAbility isComponent) ms st1 = Inr st'"
    by (auto split: sum.splits)
  show ?case using Cons.IH [OF 2] visitMethod_v3_records [OF 1] by simp
qed

lemma countClass_v3_records [simp]: "lifecycleMethods_v3 (countClass_v3 a b st) = lifecycleMethods_v3 st"
  by (simp add: countClass_v3_def Let_def)

text \<open>
  C3, amended. There is no precedence between the two roles. For a class that matches
  both base sets both checks hold, and every method of the class yields a record under
  the Ability partition when its name is in the Ability catalog and, independently, a
  record under the Component partition when its name is in the Component catalog.
\<close>

theorem both_roles_both_partitions:
  "(classify heap (heap c) = Some (True, True) \<longrightarrow> \<not> skipsClass (className (heap c)) \<longrightarrow>
      (\<exists>st'. visitClass heap fName c st = Some st'
        \<and> lifecycleMethods st' = lifecycleMethods st
            @ concat (map (\<lambda>method.
                (if methodName method \<in> set ABILITY_LIFECYCLE
                 then [lifecycleRecord ABILITY fName (className (heap c)) method] else [])
                @ (if methodName method \<in> set COMPONENT_LIFECYCLE
                   then [lifecycleRecord COMPONENT fName (className (heap c)) method] else []))
              (classMethods (heap c)))))
   \<and> (classify_v3 heap (heap c) = Some (True, True) \<longrightarrow> \<not> skipsClass_v3 (className (heap c)) \<longrightarrow>
        visitClass_v3 cat heap fName c stV = Some (Inr stV') \<longrightarrow>
        lifecycleMethods_v3 stV' = lifecycleMethods_v3 stV
            @ concat (map (\<lambda>method.
                (if methodName method \<in> set (LIFECYCLE_METHOD_NAME cat)
                 then [lifecycleRecord_v3 ABILITY fName (className (heap c)) method] else [])
                @ (if methodName method \<in> set (COMPONENT_LIFECYCLE_METHOD_NAME cat)
                   then [lifecycleRecord_v3 COMPONENT fName (className (heap c)) method] else []))
              (classMethods (heap c))))"
proof (intro conjI impI)
  assume a: "classify heap (heap c) = Some (True, True)" and n: "\<not> skipsClass (className (heap c))"
  from a have ab: "isAbilityClass heap (heap c) = Some True" and co: "isComponentClass (heap c)"
    by (auto simp: classify_def split: option.splits)
  show "\<exists>st'. visitClass heap fName c st = Some st'
        \<and> lifecycleMethods st' = lifecycleMethods st
            @ concat (map (\<lambda>method.
                (if methodName method \<in> set ABILITY_LIFECYCLE
                 then [lifecycleRecord ABILITY fName (className (heap c)) method] else [])
                @ (if methodName method \<in> set COMPONENT_LIFECYCLE
                   then [lifecycleRecord COMPONENT fName (className (heap c)) method] else []))
              (classMethods (heap c)))"
    using ab co n
      fold_visitMethod_records [of fName "className (heap c)" True True "classMethods (heap c)" st]
    by (simp add: visitClass_def Let_def)
next
  assume a: "classify_v3 heap (heap c) = Some (True, True)"
    and n: "\<not> skipsClass_v3 (className (heap c))"
    and v: "visitClass_v3 cat heap fName c stV = Some (Inr stV')"
  from a have ab: "isAbilityClass_v3 heap (heap c) = Some True" and co: "isComponentClass_v3 (heap c)"
    by (auto simp: classify_v3_def split: option.splits)
  from v ab co n have
    "foldE (visitMethod_v3 cat fName (className (heap c)) True True) (classMethods (heap c))
       (countClass_v3 True True
          (stV\<lparr>stats_v3 := (stats_v3 stV)\<lparr>totalClasses_v3 := totalClasses_v3 (stats_v3 stV) + 1\<rparr>\<rparr>))
     = Inr stV'"
    by (simp add: visitClass_v3_def Let_def)
  from foldE_visitMethod_v3_records [OF this]
  show "lifecycleMethods_v3 stV' = lifecycleMethods_v3 stV
            @ concat (map (\<lambda>method.
                (if methodName method \<in> set (LIFECYCLE_METHOD_NAME cat)
                 then [lifecycleRecord_v3 ABILITY fName (className (heap c)) method] else [])
                @ (if methodName method \<in> set (COMPONENT_LIFECYCLE_METHOD_NAME cat)
                   then [lifecycleRecord_v3 COMPONENT fName (className (heap c)) method] else []))
              (classMethods (heap c)))"
    by simp
qed

theorem both_roles_both_partitions_witness:
  "map_option (\<lambda>st. map lmType (lifecycleMethods st))
     (visitClass dualHeap ''EntryView.ets'' 0 newAnalyzer) = Some [ABILITY, COMPONENT]
   \<and> (\<exists>st. visitClass_v3 minimalCatalog dualHeap ''EntryView.ets'' 0 (newAnalyzer_v3 minimalCatalog)
             = Some (Inr st)
           \<and> map lmType (lifecycleMethods_v3 st) = [ABILITY, COMPONENT])"
proof -
  have c1: "classify dualHeap (dualHeap 0) = Some (True, True)"
    by (simp add: classify_def isAbilityClass_def isAbilityClassWith_def dualHeap_def
        ABILITY_BASE_def ancestorWalk.simps isComponentClass_def COMPONENT_BASE_def)
  have c3: "classify_v3 dualHeap (dualHeap 0) = Some (True, True)"
    by (simp add: classify_v3_def isAbilityClass_v3_def isAbilityClassWith_def dualHeap_def
        ABILITY_BASE_v3_def ancestorWalk.simps isComponentClass_v3_def COMPONENT_BASE_def)
  have n1: "\<not> skipsClass (className (dualHeap 0))"
    by (simp add: skipsClass_def dualHeap_def startsWith_def)
  have n3: "\<not> skipsClass_v3 (className (dualHeap 0))"
    by (simp add: skipsClass_v3_def dualHeap_def startsWith_def)
  obtain stV' where v: "visitClass_v3 minimalCatalog dualHeap ''EntryView.ets'' 0
      (newAnalyzer_v3 minimalCatalog) = Some (Inr stV')"
    by (simp add: identifyLifecycleMethods_v3_def visitFile_v3_def isTestFile_def
        startsWith_def visitClass_v3_def skipsClass_v3_def isAbilityClass_v3_def
        isAbilityClassWith_def ABILITY_BASE_v3_def ancestorWalk.simps
        isComponentClass_v3_def COMPONENT_BASE_def hasDecorator_def visitMethod_v3_def
        recordAbility_v3_def recordComponent_v3_def recordUsage_v3_def newAnalyzer_v3_def
        initializeTable_apply countClass_v3_def ABILITY_LIFECYCLE_def
        COMPONENT_LIFECYCLE_def onCreateMethod_def aboutToAppearMethod_def
        minimalCatalog_def dualHeap_def)
  from both_roles_both_partitions [of dualHeap 0 "''EntryView.ets''" newAnalyzer minimalCatalog
      "newAnalyzer_v3 minimalCatalog" stV'] c1 c3 n1 n3 v
  show ?thesis
    by (auto simp: dualHeap_def onCreateMethod_def aboutToAppearMethod_def
        ABILITY_LIFECYCLE_def COMPONENT_LIFECYCLE_def minimalCatalog_def lifecycleRecord_def
        lifecycleRecord_v3_def newAnalyzer_def newAnalyzer_v3_def)
qed

section \<open>Results on the callback table\<close>

lemma visitMethod_v3_callbackStats:
  "visitMethod_v3 cat fName clsName a b m st = Inr st' \<Longrightarrow> callbackStats st' = callbackStats st"
  by (auto simp: visitMethod_v3_def Let_def recordAbility_v3_def recordComponent_v3_def
      split: sum.splits if_splits)

lemma visitClass_v3_callbackStats:
  assumes "visitClass_v3 cat heap fName c st = Some (Inr st')"
  shows "callbackStats st' = callbackStats st"
proof (cases "skipsClass_v3 (className (heap c))")
  case True
  with assms show ?thesis by (simp add: visitClass_v3_def)
next
  case False
  with assms obtain a where
    f: "foldE (visitMethod_v3 cat fName (className (heap c)) a (isComponentClass_v3 (heap c)))
          (classMethods (heap c))
          (countClass_v3 a (isComponentClass_v3 (heap c))
             (st\<lparr>stats_v3 := (stats_v3 st)
                \<lparr>totalClasses_v3 := totalClasses_v3 (stats_v3 st) + 1\<rparr>\<rparr>)) = Inr st'"
    by (auto simp: visitClass_v3_def Let_def split: option.splits)
  have "callbackStats st' = callbackStats st"
    by (rule foldE_invariant [where P = "\<lambda>s. callbackStats s = callbackStats st", OF _ _ f])
      (auto simp: countClass_v3_def Let_def dest: visitMethod_v3_callbackStats)
  then show ?thesis .
qed

lemma visitFile_v3_callbackStats:
  assumes "visitFile_v3 cat heap file st = Some (Inr st')"
  shows "callbackStats st' = callbackStats st"
proof (cases "isTestFile (fileName file)")
  case True
  with assms show ?thesis by (simp add: visitFile_v3_def)
next
  case False
  with assms have f: "foldR (visitClass_v3 cat heap (fileName file)) (fileClasses file) st
      = Some (Inr st')"
    by (simp add: visitFile_v3_def)
  show ?thesis
    by (rule foldR_invariant [where P = "\<lambda>s. callbackStats s = callbackStats st", OF _ _ f])
      (auto dest: visitClass_v3_callbackStats)
qed

lemma identifyLifecycleMethods_v3_callbackStats:
  assumes "identifyLifecycleMethods_v3 cat sc st = Some (Inr st')"
  shows "callbackStats st' = callbackStats st"
proof -
  from assms obtain st1 where
    f: "foldR (visitFile_v3 cat (sceneClass sc)) (sceneFiles sc)
          (st\<lparr>stats_v3 := (stats_v3 st)\<lparr>totalFiles_v3 := length (sceneFiles sc)\<rparr>\<rparr>)
        = Some (Inr st1)"
    and st': "st' = setLifecycleCount_v3 st1"
    by (auto simp: identifyLifecycleMethods_v3_def split: option.splits sum.splits)
  have "callbackStats st1 = callbackStats st"
    by (rule foldR_invariant [where P = "\<lambda>s. callbackStats s = callbackStats st", OF _ _ f])
      (auto dest: visitFile_v3_callbackStats)
  with st' show ?thesis by (simp add: setLifecycleCount_v3_def)
qed

lemma buildCallGraph_v3_callbackStats [simp]:
  "callbackStats (buildCallGraph_v3 env st) = callbackStats st"
  by (simp add: buildCallGraph_v3_def setCallGraph_v3_def Let_def split: sum.splits)

lemma analyzeUndefinedVariables_v3_callbackStats [simp]:
  "callbackStats (analyzeUndefinedVariables_v3 solve st) = callbackStats st"
  by (simp add: analyzeUndefinedVariables_v3_def Let_def)

lemma analyzeDataFlow_v3_callbackStats [simp]:
  "callbackStats (analyzeDataFlow_v3 st) = callbackStats st"
  by (simp add: analyzeDataFlow_v3_def Let_def split: option.splits)

text \<open>
  C10. After a full run of version 3 the callback table is the table the constructor
  built: it has an entry for each callback name, and every entry is unused, with usage
  count 0 and empty class and file collections.
\<close>

theorem callback_stats_never_updated:
  assumes "analyzeOpenEyeLifecycleV3 cat env solve sc = Some (Inr st)"
  shows "callbackStats st = initializeTable unusedStat_v3 (CALLBACK_METHOD_NAME cat)
       \<and> dom (callbackStats st) = set (CALLBACK_METHOD_NAME cat)
       \<and> (\<forall>name s. callbackStats st name = Some s \<longrightarrow>
             \<not> csIsUsed s \<and> csUsageCount s = 0 \<and> csClasses s = [] \<and> csFiles s = [])"
proof -
  from assms obtain st1 where
    i: "identifyLifecycleMethods_v3 cat sc (newAnalyzer_v3 cat) = Some (Inr st1)"
    and st: "st = analyzeDataFlow_v3
                    (analyzeUndefinedVariables_v3 solve (buildCallGraph_v3 env st1))"
    by (auto simp: analyzeOpenEyeLifecycleV3_def split: option.splits sum.splits)
  from identifyLifecycleMethods_v3_callbackStats [OF i] st
  have eq: "callbackStats st = initializeTable unusedStat_v3 (CALLBACK_METHOD_NAME cat)"
    by (simp add: newAnalyzer_v3_def)
  show ?thesis
    unfolding eq
    by (auto simp: initializeTable_apply unusedStat_v3_def dom_def split: if_splits)
qed

theorem callback_stats_never_updated_witness:
  "\<exists>st. analyzeOpenEyeLifecycleV3 minimalCatalog quietEnv throwingSolver dualScene
          = Some (Inr st)
      \<and> dom (callbackStats st) = {''onClick'', ''onTouch''}
      \<and> map_option csUsageCount (callbackStats st ''onClick'') = Some 0"
proof -
  obtain st1 where i: "identifyLifecycleMethods_v3 minimalCatalog dualScene
      (newAnalyzer_v3 minimalCatalog) = Some (Inr st1)"
    by (simp add: identifyLifecycleMethods_v3_def visitFile_v3_def isTestFile_def
        startsWith_def visitClass_v3_def skipsClass_v3_def isAbilityClass_v3_def
        isAbilityClassWith_def ABILITY_BASE_v3_def ancestorWalk.simps
        isComponentClass_v3_def COMPONENT_BASE_def hasDecorator_def visitMethod_v3_def
        recordAbility_v3_def recordComponent_v3_def recordUsage_v3_def newAnalyzer_v3_def
        initializeTable_apply countClass_v3_def ABILITY_LIFECYCLE_def
        COMPONENT_LIFECYCLE_def onCreateMethod_def aboutToAppearMethod_def
        minimalCatalog_def dualScene_def dualHeap_def)
  define st where "st = analyzeDataFlow_v3
      (analyzeUndefinedVariables_v3 throwingSolver (buildCallGraph_v3 quietEnv st1))"
  have r: "analyzeOpenEyeLifecycleV3 minimalCatalog quietEnv throwingSolver dualScene
      = Some (Inr st)"
    by (simp add: analyzeOpenEyeLifecycleV3_def i st_def)
  from callback_stats_never_updated [OF r]
  have c: "callbackStats st = initializeTable unusedStat_v3 (CALLBACK_METHOD_NAME minimalCatalog)"
    and d: "dom (callbackStats st) = set (CALLBACK_METHOD_NAME minimalCatalog)"
    by blast+
  have d': "dom (callbackStats st) = {''onClick'', ''onTouch''}"
    unfolding d by (simp add: minimalCatalog_def)
  have u: "map_option csUsageCount (callbackStats st ''onClick'') = Some 0"
    unfolding c by (simp add: minimalCatalog_def initializeTable_apply unusedStat_v3_def)
  from r d' u show ?thesis by (intro exI conjI)
qed

section \<open>Results on the coverage invariant\<close>

lemma tableGrows_refl: "tableGrows tbl tbl"
  by (simp add: tableGrows_def statGrows_def)

lemma tableGrows_trans: "tableGrows t1 t2 \<Longrightarrow> tableGrows t2 t3 \<Longrightarrow> tableGrows t1 t3"
  unfolding tableGrows_def statGrows_def
  by (meson order_trans prefix_order.order_trans)

lemma tableInv_initializeTable:
  "tableInv (initializeTable unusedStat names) \<and> tableInv (initializeTable unusedStat_v3 names)"
  by (auto simp: tableInv_def initializeTable_apply coverageInv_def unusedStat_def
      unusedStat_v3_def split: if_splits)

lemma recordUsage_inv:
  assumes "recordUsage name clsName tbl = Inr tbl'" and "tableInv tbl"
  shows "tableInv tbl' \<and> tableGrows tbl tbl'"
proof -
  from assms(1) obtain stat where
    s: "tbl name = Some stat"
    and t: "tbl' = tbl(name \<mapsto> stat\<lparr>csIsUsed := True,
                                 csUsageCount := csUsageCount stat + 1,
                                 csClasses := csClasses stat @ [clsName]\<rparr>)"
    by (auto simp: recordUsage_def split: option.splits)
  show ?thesis using assms(2) s
    unfolding t tableInv_def tableGrows_def statGrows_def coverageInv_def
    by auto
qed

lemma recordUsage_v3_inv:
  assumes "recordUsage_v3 name clsName fName tbl = Inr tbl'" and "tableInv tbl"
  shows "tableInv tbl' \<and> tableGrows tbl tbl'"
proof -
  from assms(1) obtain stat where
    s: "tbl name = Some stat"
    and t: "tbl' = tbl(name \<mapsto> stat\<lparr>csIsUsed := True,
                                 csUsageCount := csUsageCount stat + 1,
                                 csClasses := pushIfAbsent clsName (csClasses stat),
                                 csFiles := pushIfAbsent fName (csFiles stat)\<rparr>)"
    by (auto simp: recordUsage_v3_def split: option.splits)
  have p: "pushIfAbsent clsName (csClasses stat) \<noteq> []"
      "prefix (csClasses stat) (pushIfAbsent clsName (csClasses stat))"
    by (auto simp: pushIfAbsent_def)
  show ?thesis using assms(2) s p
    unfolding t tableInv_def tableGrows_def statGrows_def coverageInv_def
    by auto
qed

lemma visitMethod_v2_ok:
  assumes "tablesOk_v2 st0 st" and "visitMethod_v2 cat fName clsName a b m st = Inr st'"
  shows "tablesOk_v2 st0 st'"
proof -
  from assms(2) obtain st1 where
    1: "(if a \<and> methodName m \<in> set (LIFECYCLE_METHOD_NAME cat)
         then recordAbility_v2 fName clsName m st else Inr st) = Inr st1"
    and 2: "(if b \<and> methodName m \<in> set (COMPONENT_LIFECYCLE_METHOD_NAME cat)
             then recordComponent_v2 fName clsName m st1 else Inr st1) = Inr st'"
    by (auto simp: visitMethod_v2_def split: sum.splits)
  have ok1: "tablesOk_v2 st0 st1"
  proof (cases "a \<and> methodName m \<in> set (LIFECYCLE_METHOD_NAME cat)")
    case False
    with 1 assms(1) show ?thesis by simp
  next
    case True
    with 1 obtain tbl where
      r: "recordUsage (methodName m) clsName (abilityLifecycleStats_v2 st) = Inr tbl"
      and e: "abilityLifecycleStats_v2 st1 = tbl"
           "componentLifecycleStats_v2 st1 = componentLifecycleStats_v2 st"
      by (auto simp: recordAbility_v2_def Let_def split: sum.splits)
    from assms(1) recordUsage_inv [OF r] e show ?thesis
      by (auto simp: tablesOk_v2_def intro: tableGrows_trans)
  qed
  show ?thesis
  proof (cases "b \<and> methodName m \<in> set (COMPONENT_LIFECYCLE_METHOD_NAME cat)")
    case False
    with 2 ok1 show ?thesis by simp
  next
    case True
    with 2 obtain tbl where
      r: "recordUsage (methodName m) clsName (componentLifecycleStats_v2 st1) = Inr tbl"
      and e: "componentLifecycleStats_v2 st' = tbl"
           "abilityLifecycleStats_v2 st' = abilityLifecycleStats_v2 st1"
      by (auto simp: recordComponent_v2_def Let_def split: sum.splits)
    from ok1 recordUsage_inv [OF r] e show ?thesis
      by (auto simp: tablesOk_v2_def intro: tableGrows_trans)
  qed
qed

lemma visitMethod_v3_ok:
  assumes "tablesOk_v3 st0 st" and "visitMethod_v3 cat fName clsName a b m st = Inr st'"
  shows "tablesOk_v3 st0 st'"
proof -
  define stc where "stc = st\<lparr>stats_v3 := (stats_v3 st)
                   \<lparr>totalMethods_v3 := totalMethods_v3 (stats_v3 st) + 1\<rparr>\<rparr>"
  from assms(2) have
    "(case (if a \<and> methodName m \<in> set (LIFECYCLE_METHOD_NAME cat)
            then recordAbility_v3 fName clsName m stc else Inr stc) of
        Inl e \<Rightarrow> Inl e
      | Inr st1 \<Rightarrow>
          if b \<and> methodName m \<in> set (COMPONENT_LIFECYCLE_METHOD_NAME cat)
          then recordComponent_v3 fName clsName m st1 else Inr st1) = Inr st'"
    unfolding visitMethod_v3_def Let_def stc_def .
  then obtain st1 where
    1: "(if a \<and> methodName m \<in> set (LIFECYCLE_METHOD_NAME cat)
         then recordAbility_v3 fName clsName m stc else Inr stc) = Inr st1"
    and 2: "(if b \<and> methodName m \<in> set (COMPONENT_LIFECYCLE_METHOD_NAME cat)
             then recordComponent_v3 fName clsName m st1 else Inr st1) = Inr st'"
    by (auto split: sum.splits)
  from assms(1) have okc: "tablesOk_v3 st0 stc"
    by (simp add: tablesOk_v3_def stc_def)
  have ok1: "tablesOk_v3 st0 st1"
  proof (cases "a \<and> methodName m \<in> set (LIFECYCLE_METHOD_NAME cat)")
    case False
    with 1 okc show ?thesis by simp
  next
    case True
    with 1 obtain tbl where
      r: "recordUsage_v3 (methodName m) clsName fName (abilityLifecycleStats stc) = Inr tbl"
      and e: "abilityLifecycleStats st1 = tbl"
           "componentLifecycleStats st1 = componentLifecycleStats stc"
      by (auto simp: recordAbility_v3_def Let_def split: sum.splits)
    from okc recordUsage_v3_inv [OF r] e show ?thesis
      by (auto simp: tablesOk_v3_def intro: tableGrows_trans)
  qed
  show ?thesis
  proof (cases "b \<and> methodName m \<in> set (COMPONENT_LIFECYCLE_METHOD_NAME cat)")
    case False
    with 2 ok1 show ?thesis by simp
  next
    case True
    with 2 obtain tbl where
      r: "recordUsage_v3 (methodName m) clsName fName (componentLifecycleStats st1) = Inr tbl"
      and e: "componentLifecycleStats st' = tbl"
           "abilityLifecycleStats st' = abilityLifecycleStats st1"
      by (auto simp: recordComponent_v3_def Let_def split: sum.splits)
    from ok1 recordUsage_v3_inv [OF r] e show ?thesis
      by (auto simp: tablesOk_v3_def intro: tableGrows_trans)
  qed
qed

lemma visitClass_v2_ok:
  assumes "tablesOk_v2 st0 st" and "visitClass_v2 cat heap fName c st = Some (Inr st')"
  shows "tablesOk_v2 st0 st'"
proof (cases "skipsClass_v2 (className (heap c))")
  case True
  with assms show ?thesis by (simp add: visitClass_v2_def)
next
  case False
  with assms(2) obtain a where
    f: "foldE (visitMethod_v2 cat fName (className (heap c)) a (isComponentClass (heap c)))
          (classMethods (heap c)) st = Inr st'"
    by (auto simp: visitClass_v2_def Let_def split: option.splits)
  show ?thesis
    by (rule foldE_invariant [where P = "tablesOk_v2 st0", OF _ assms(1) f])
      (rule visitMethod_v2_ok)
qed

lemma visitClass_v3_ok:
  assumes "tablesOk_v3 st0 st" and "visitClass_v3 cat heap fName c st = Some (Inr st')"
  shows "tablesOk_v3 st0 st'"
proof (cases "skipsClass_v3 (className (heap c))")
  case True
  with assms show ?thesis by (simp add: visitClass_v3_def)
next
  case False
  with assms(2) obtain a where
    f: "foldE (visitMethod_v3 cat fName (className (heap c)) a (isComponentClass_v3 (heap c)))
          (classMethods (heap c))
          (countClass_v3 a (isComponentClass_v3 (heap c))
             (st\<lparr>stats_v3 := (stats_v3 st)
                \<lparr>totalClasses_v3 := totalClasses_v3 (stats_v3 st) + 1\<rparr>\<rparr>)) = Inr st'"
    by (auto simp: visitClass_v3_def Let_def split: option.splits)
  have s: "tablesOk_v3 st0 (countClass_v3 a (isComponentClass_v3 (heap c))
             (st\<lparr>stats_v3 := (stats_v3 st)
                \<lparr>totalClasses_v3 := totalClasses_v3 (stats_v3 st) + 1\<rparr>\<rparr>))"
    using assms(1) by (simp add: tablesOk_v3_def countClass_v3_def Let_def)
  show ?thesis
    by (rule foldE_invariant [where P = "tablesOk_v3 st0", OF _ s f])
      (rule visitMethod_v3_ok)
qed

lemma visitFile_v2_ok:
  assumes "tablesOk_v2 st0 st" and "visitFile_v2 cat heap file st = Some (Inr st')"
  shows "tablesOk_v2 st0 st'"
proof (cases "isTestFile (fileName file)")
  case True
  with assms show ?thesis by (simp add: visitFile_v2_def)
next
  case False
  with assms(2) have f: "foldR (visitClass_v2 cat heap (fileName file)) (fileClasses file) st
      = Some (Inr st')"
    by (simp add: visitFile_v2_def)
  show ?thesis
    by (rule foldR_invariant [where P = "tablesOk_v2 st0", OF _ assms(1) f])
      (rule visitClass_v2_ok)
qed

lemma visitFile_v3_ok:
  assumes "tablesOk_v3 st0 st" and "visitFile_v3 cat heap file st = Some (Inr st')"
  shows "tablesOk_v3 st0 st'"
proof (cases "isTestFile (fileName file)")
  case True
  with assms show ?thesis by (simp add: visitFile_v3_def)
next
  case False
  with assms(2) have f: "foldR (visitClass_v3 cat heap (fileName file)) (fileClasses file) st
      = Some (Inr st')"
    by (simp add: visitFile_v3_def)
  show ?thesis
    by (rule foldR_invariant [where P = "tablesOk_v3 st0", OF _ assms(1) f])
      (rule visitClass_v3_ok)
qed

lemma identify_v2_ok:
  assumes "tablesOk_v2 st st" and "identifyLifecycleMethods_v2 cat sc st = Some (Inr st')"
  shows "tablesOk_v2 st st'"
  by (rule foldR_invariant [where P = "tablesOk_v2 st",
        OF _ assms(1) assms(2) [unfolded identifyLifecycleMethods_v2_def]])
    (rule visitFile_v2_ok)

lemma identify_v3_ok:
  assumes "tablesOk_v3 st st" and "identifyLifecycleMethods_v3 cat sc st = Some (Inr st')"
  shows "tablesOk_v3 st st'"
proof -
  from assms(2) obtain st1 where
    f: "foldR (visitFile_v3 cat (sceneClass sc)) (sceneFiles sc)
          (st\<lparr>stats_v3 := (stats_v3 st)\<lparr>totalFiles_v3 := length (sceneFiles sc)\<rparr>\<rparr>)
        = Some (Inr st1)"
    and st': "st' = setLifecycleCount_v3 st1"
    by (auto simp: identifyLifecycleMethods_v3_def split: option.splits sum.splits)
  have s: "tablesOk_v3 st
             (st\<lparr>stats_v3 := (stats_v3 st)\<lparr>totalFiles_v3 := length (sceneFiles sc)\<rparr>\<rparr>)"
    using assms(1) by (simp add: tablesOk_v3_def)
  have "tablesOk_v3 st st1"
    by (rule foldR_invariant [where P = "tablesOk_v3 st", OF _ s f]) (rule visitFile_v3_ok)
  with st' show ?thesis by (simp add: tablesOk_v3_def setLifecycleCount_v3_def)
qed

text \<open>
  C7. The lifecycle tables of a freshly constructed analyzer (versions 2 and 3) satisfy
  the invariant, and a scan that starts from tables that satisfy it ends with tables that
  satisfy it: every entry is used if and only if its usage count is positive, if and only
  if its class collection is not empty. During the scan no entry is removed or reset: the
  usage count of every entry only grows, its class collection is only extended at the end,
  and a used entry stays used.
\<close>

theorem coverage_invariant:
  "tableInv (abilityLifecycleStats_v2 (newAnalyzer_v2 cat))
   \<and> tableInv (componentLifecycleStats_v2 (newAnalyzer_v2 cat))
   \<and> tableInv (abilityLifecycleStats (newAnalyzer_v3 cat))
   \<and> tableInv (componentLifecycleStats (newAnalyzer_v3 cat))
   \<and> (tableInv (abilityLifecycleStats_v2 st2) \<longrightarrow> tableInv (componentLifecycleStats_v2 st2) \<longrightarrow>
        identifyLifecycleMethods_v2 cat sc st2 = Some (Inr st2') \<longrightarrow>
          tableInv (abilityLifecycleStats_v2 st2') \<and> tableInv (componentLifecycleStats_v2 st2')
          \<and> tableGrows (abilityLifecycleStats_v2 st2) (abilityLifecycleStats_v2 st2')
          \<and> tableGrows (componentLifecycleStats_v2 st2) (componentLifecycleStats_v2 st2'))
   \<and> (tableInv (abilityLifecycleStats st) \<longrightarrow> tableInv (componentLifecycleStats st) \<longrightarrow>
        identifyLifecycleMethods_v3 cat sc st = Some (Inr st') \<longrightarrow>
          tableInv (abilityLifecycleStats st') \<and> tableInv (componentLifecycleStats st')
          \<and> tableGrows (abilityLifecycleStats st) (abilityLifecycleStats st')
          \<and> tableGrows (componentLifecycleStats st) (componentLifecycleStats st'))"
proof (intro conjI impI)
  assume a: "tableInv (abilityLifecycleStats_v2 st2)" "tableInv (componentLifecycleStats_v2 st2)"
    and i: "identifyLifecycleMethods_v2 cat sc st2 = Some (Inr st2')"
  from a have "tablesOk_v2 st2 st2" by (simp add: tablesOk_v2_def tableGrows_refl)
  from identify_v2_ok [OF this i]
  show "tableInv (abilityLifecycleStats_v2 st2')" "tableInv (componentLifecycleStats_v2 st2')"
    "tableGrows (abilityLifecycleStats_v2 st2) (abilityLifecycleStats_v2 st2')"
    "tableGrows (componentLifecycleStats_v2 st2) (componentLifecycleStats_v2 st2')"
    by (simp_all add: tablesOk_v2_def)
next
  assume a: "tableInv (abilityLifecycleStats st)" "tableInv (componentLifecycleStats st)"
    and i: "identifyLifecycleMethods_v3 cat sc st = Some (Inr st')"
  from a have "tablesOk_v3 st st" by (simp add: tablesOk_v3_def tableGrows_refl)
  from identify_v3_ok [OF this i]
  show "tableInv (abilityLifecycleStats st')" "tableInv (componentLifecycleStats st')"
    "tableGrows (abilityLifecycleStats st) (abilityLifecycleStats st')"
    "tableGrows (componentLifecycleStats st) (componentLifecycleStats st')"
    by (simp_all add: tablesOk_v3_def)
qed (simp_all add: newAnalyzer_v2_def newAnalyzer_v3_def tableInv_initializeTable)

theorem coverage_invariant_witness:
  "(\<exists>st' s. identifyLifecycleMethods_v2 minimalCatalog dualScene (newAnalyzer_v2 minimalCatalog)
             = Some (Inr st')
          \<and> abilityLifecycleStats_v2 st' ''onCreate'' = Some s
          \<and> coverageInv s \<and> csUsageCount s = 1)
   \<and> (\<exists>st' s. identifyLifecycleMethods_v3 minimalCatalog dualScene (newAnalyzer_v3 minimalCatalog)
             = Some (Inr st')
          \<and> componentLifecycleStats st' ''aboutToAppear'' = Some s
          \<and> coverageInv s \<and> csClasses s = [''EntryView''])"
proof -
  obtain stE sE where e: "identifyLifecycleMethods_v2 minimalCatalog dualScene
      (newAnalyzer_v2 minimalCatalog) = Some (Inr stE)"
    and eu: "abilityLifecycleStats_v2 stE ''onCreate'' = Some sE" "csUsageCount sE = 1"
    by (simp add: identifyLifecycleMethods_v2_def visitFile_v2_def isTestFile_def
        startsWith_def visitClass_v2_def skipsClass_v2_def isAbilityClass_v2_def
        isAbilityClassWith_def ABILITY_BASE_v2_def ancestorWalk.simps isComponentClass_def
        COMPONENT_BASE_def hasDecorator_def visitMethod_v2_def recordAbility_v2_def
        recordComponent_v2_def recordUsage_def newAnalyzer_v2_def initializeTable_apply
        ABILITY_LIFECYCLE_def COMPONENT_LIFECYCLE_def onCreateMethod_def
        aboutToAppearMethod_def minimalCatalog_def dualScene_def dualHeap_def
        unusedStat_def)
  obtain stV sV where v: "identifyLifecycleMethods_v3 minimalCatalog dualScene
      (newAnalyzer_v3 minimalCatalog) = Some (Inr stV)"
    and vu: "componentLifecycleStats stV ''aboutToAppear'' = Some sV"
      "csClasses sV = [''EntryView'']"
    by (simp add: identifyLifecycleMethods_v3_def visitFile_v3_def isTestFile_def
        startsWith_def visitClass_v3_def skipsClass_v3_def isAbilityClass_v3_def
        isAbilityClassWith_def ABILITY_BASE_v3_def ancestorWalk.simps
        isComponentClass_v3_def COMPONENT_BASE_def hasDecorator_def visitMethod_v3_def
        recordAbility_v3_def recordComponent_v3_def recordUsage_v3_def newAnalyzer_v3_def
        initializeTable_apply countClass_v3_def ABILITY_LIFECYCLE_def
        COMPONENT_LIFECYCLE_def onCreateMethod_def aboutToAppearMethod_def
        minimalCatalog_def dualScene_def dualHeap_def unusedStat_v3_def
        setLifecycleCount_v3_def pushIfAbsent_def)
  note inv = coverage_invariant [of minimalCatalog "newAnalyzer_v2 minimalCatalog" dualScene
      stE "newAnalyzer_v3 minimalCatalog" stV]
  from inv e have "tableInv (abilityLifecycleStats_v2 stE)" by blast
  with eu(1) have cE: "coverageInv sE" by (simp add: tableInv_def)
  from inv v have "tableInv (componentLifecycleStats stV)" by blast
  with vu(1) have cV: "coverageInv sV" by (simp add: tableInv_def)
  from e eu cE have a: "\<exists>st' s.
      identifyLifecycleMethods_v2 minimalCatalog dualScene (newAnalyzer_v2 minimalCatalog)
        = Some (Inr st')
      \<and> abilityLifecycleStats_v2 st' ''onCreate'' = Some s
      \<and> coverageInv s \<and> csUsageCount s = 1"
    by (intro exI conjI)
  from v vu cV have b: "\<exists>st' s.
      identifyLifecycleMethods_v3 minimalCatalog dualScene (newAnalyzer_v3 minimalCatalog)
        = Some (Inr st')
      \<and> componentLifecycleStats st' ''aboutToAppear'' = Some s
      \<and> coverageInv s \<and> csClasses s = [''EntryView'']"
    by (intro exI conjI)
  from a b show ?thesis by (rule conjI)
qed

section \<open>Results on the catalog swap\<close>

lemma recordUsage_v3_total:
  assumes "name \<in> dom tbl"
  shows "\<exists>tbl'. recordUsage_v3 name clsName fName tbl = Inr tbl' \<and> dom tbl' = dom tbl"
  using assms by (auto simp: recordUsage_v3_def split: option.splits)

lemma recordAbility_v3_total:
  assumes "keysOk cat st" and "methodName m \<in> set (LIFECYCLE_METHOD_NAME cat)"
  shows "\<exists>st'. recordAbility_v3 fName clsName m st = Inr st' \<and> keysOk cat st'"
proof -
  from assms have "methodName m \<in> dom (abilityLifecycleStats st)"
    by (auto simp: keysOk_def)
  from recordUsage_v3_total [OF this, of clsName fName] obtain tbl where
    "recordUsage_v3 (methodName m) clsName fName (abilityLifecycleStats st) = Inr tbl"
    "dom tbl = dom (abilityLifecycleStats st)" by blast
  with assms(1) show ?thesis
    by (simp add: recordAbility_v3_def Let_def keysOk_def)
qed

lemma recordComponent_v3_total:
  assumes "keysOk cat st" and "methodName m \<in> set (COMPONENT_LIFECYCLE_METHOD_NAME cat)"
  shows "\<exists>st'. recordComponent_v3 fName clsName m st = Inr st' \<and> keysOk cat st'"
proof -
  from assms have "methodName m \<in> dom (componentLifecycleStats st)"
    by (auto simp: keysOk_def)
  from recordUsage_v3_total [OF this, of clsName fName] obtain tbl where
    "recordUsage_v3 (methodName m) clsName fName (componentLifecycleStats st) = Inr tbl"
    "dom tbl = dom (componentLifecycleStats st)" by blast
  with assms(1) show ?thesis
    by (simp add: recordComponent_v3_def Let_def keysOk_def)
qed

lemma visitMethod_v3_total:
  assumes "keysOk cat st"
  shows "\<exists>st'. visitMethod_v3 cat fName clsName a b m st = Inr st' \<and> keysOk cat st'"
proof -
  define stc where "stc = st\<lparr>stats_v3 := (stats_v3 st)
                   \<lparr>totalMethods_v3 := totalMethods_v3 (stats_v3 st) + 1\<rparr>\<rparr>"
  have v: "visitMethod_v3 cat fName clsName a b m st =
    (case (if a \<and> methodName m \<in> set (LIFECYCLE_METHOD_NAME cat)
            then recordAbility_v3 fName clsName m stc else Inr stc) of
        Inl e \<Rightarrow> Inl e
      | Inr st1 \<Rightarrow>
          if b \<and> methodName m \<in> set (COMPONENT_LIFECYCLE_METHOD_NAME cat)
          then recordComponent_v3 fName clsName m st1 else Inr st1)"
    unfolding visitMethod_v3_def Let_def stc_def ..
  from assms have okc: "keysOk cat stc" by (simp add: keysOk_def stc_def)
  obtain st1 where 1: "(if a \<and> methodName m \<in> set (LIFECYCLE_METHOD_NAME cat)
            then recordAbility_v3 fName clsName m stc else Inr stc) = Inr st1" "keysOk cat st1"
    using okc recordAbility_v3_total [OF okc, of m fName clsName] by (cases "a \<and> methodName m \<in> set (LIFECYCLE_METHOD_NAME cat)") auto
  obtain st2 where 2: "(if b \<and> methodName m \<in> set (COMPONENT_LIFECYCLE_METHOD_NAME cat)
          then recordComponent_v3 fName clsName m st1 else Inr st1) = Inr st2" "keysOk cat st2"
    using 1(2) recordComponent_v3_total [OF 1(2), of m fName clsName] by (cases "b \<and> methodName m \<in> set (COMPONENT_LIFECYCLE_METHOD_NAME cat)") auto
  show ?thesis unfolding v using 1 2 by simp
qed

lemma visitMethod_v3_simulation:
  assumes sub: "set (LIFECYCLE_METHOD_NAME cat) \<subseteq> set (LIFECYCLE_METHOD_NAME cat')"
      "set (COMPONENT_LIFECYCLE_METHOD_NAME cat)
         \<subseteq> set (COMPONENT_LIFECYCLE_METHOD_NAME cat')"
    and r: "recordsKept cat' s t"
    and v: "visitMethod_v3 cat fName clsName a b m s = Inr s'"
  shows "\<exists>t'. visitMethod_v3 cat' fName clsName a b m t = Inr t' \<and> recordsKept cat' s' t'"
proof -
  from r have k: "keysOk cat' t" by (simp add: recordsKept_def)
  from visitMethod_v3_total [OF k, of fName clsName a b m] obtain t' where
    t': "visitMethod_v3 cat' fName clsName a b m t = Inr t'" "keysOk cat' t'" by blast
  have e1: "subseq
      (if a \<and> methodName m \<in> set (LIFECYCLE_METHOD_NAME cat)
        then [lifecycleRecord_v3 ABILITY fName clsName m] else [])
      (if a \<and> methodName m \<in> set (LIFECYCLE_METHOD_NAME cat')
        then [lifecycleRecord_v3 ABILITY fName clsName m] else [])"
    using sub(1) by auto
  have e2: "subseq
      (if b \<and> methodName m \<in> set (COMPONENT_LIFECYCLE_METHOD_NAME cat)
        then [lifecycleRecord_v3 COMPONENT fName clsName m] else [])
      (if b \<and> methodName m \<in> set (COMPONENT_LIFECYCLE_METHOD_NAME cat')
        then [lifecycleRecord_v3 COMPONENT fName clsName m] else [])"
    using sub(2) by auto
  from r have e0: "subseq (lifecycleMethods_v3 s) (lifecycleMethods_v3 t)"
    by (simp add: recordsKept_def)
  have "subseq (lifecycleMethods_v3 s') (lifecycleMethods_v3 t')"
    unfolding visitMethod_v3_records [OF v] visitMethod_v3_records [OF t'(1)]
    by (intro list_emb_append_mono e0 e1 e2)
  with t' show ?thesis by (auto simp: recordsKept_def)
qed

lemma visitClass_v3_simulation:
  assumes sub: "set (LIFECYCLE_METHOD_NAME cat) \<subseteq> set (LIFECYCLE_METHOD_NAME cat')"
      "set (COMPONENT_LIFECYCLE_METHOD_NAME cat)
         \<subseteq> set (COMPONENT_LIFECYCLE_METHOD_NAME cat')"
    and r: "recordsKept cat' s t"
    and v: "visitClass_v3 cat heap fName c s = Some (Inr s')"
  shows "\<exists>t'. visitClass_v3 cat' heap fName c t = Some (Inr t') \<and> recordsKept cat' s' t'"
proof (cases "skipsClass_v3 (className (heap c))")
  case True
  with v r show ?thesis by (simp add: visitClass_v3_def)
next
  case False
  define pre where "pre = (\<lambda>a (st :: analyzer_v3). countClass_v3 a (isComponentClass_v3 (heap c))
             (st\<lparr>stats_v3 := (stats_v3 st)
                \<lparr>totalClasses_v3 := totalClasses_v3 (stats_v3 st) + 1\<rparr>\<rparr>))"
  have vc: "visitClass_v3 ct heap fName c st =
      (case isAbilityClass_v3 heap (heap c) of None \<Rightarrow> None
       | Some a \<Rightarrow> Some (foldE (visitMethod_v3 ct fName (className (heap c)) a
             (isComponentClass_v3 (heap c))) (classMethods (heap c)) (pre a st)))" for ct st
    using False unfolding visitClass_v3_def Let_def pre_def by simp
  from v obtain a where a: "isAbilityClass_v3 heap (heap c) = Some a"
    and f: "foldE (visitMethod_v3 cat fName (className (heap c)) a (isComponentClass_v3 (heap c)))
          (classMethods (heap c)) (pre a s) = Inr s'"
    unfolding vc by (auto split: option.splits)
  from r have r0: "recordsKept cat' (pre a s) (pre a t)"
    by (simp add: recordsKept_def keysOk_def pre_def countClass_v3_def Let_def)
  have "\<exists>t'. foldE (visitMethod_v3 cat' fName (className (heap c)) a
               (isComponentClass_v3 (heap c))) (classMethods (heap c)) (pre a t) = Inr t'
             \<and> recordsKept cat' s' t'"
  proof (rule foldE_simulation [where R = "recordsKept cat'", OF _ r0 f])
    fix x s t s'
    assume "recordsKept cat' s t"
      and "visitMethod_v3 cat fName (className (heap c)) a (isComponentClass_v3 (heap c)) x s
             = Inr s'"
    then show "\<exists>t'. visitMethod_v3 cat' fName (className (heap c)) a
                     (isComponentClass_v3 (heap c)) x t = Inr t' \<and> recordsKept cat' s' t'"
      by (rule visitMethod_v3_simulation [OF sub])
  qed
  then
  show ?thesis unfolding vc a by simp
qed

lemma visitFile_v3_simulation:
  assumes sub: "set (LIFECYCLE_METHOD_NAME cat) \<subseteq> set (LIFECYCLE_METHOD_NAME cat')"
      "set (COMPONENT_LIFECYCLE_METHOD_NAME cat)
         \<subseteq> set (COMPONENT_LIFECYCLE_METHOD_NAME cat')"
    and r: "recordsKept cat' s t"
    and v: "visitFile_v3 cat heap file s = Some (Inr s')"
  shows "\<exists>t'. visitFile_v3 cat' heap file t = Some (Inr t') \<and> recordsKept cat' s' t'"
proof (cases "isTestFile (fileName file)")
  case True
  with v r show ?thesis by (simp add: visitFile_v3_def)
next
  case False
  with v have f: "foldR (visitClass_v3 cat heap (fileName file)) (fileClasses file) s
      = Some (Inr s')"
    by (simp add: visitFile_v3_def)
  have "\<exists>t'. foldR (visitClass_v3 cat' heap (fileName file)) (fileClasses file) t
               = Some (Inr t') \<and> recordsKept cat' s' t'"
  proof (rule foldR_simulation [where R = "recordsKept cat'", OF _ r f])
    fix x s t s'
    assume "recordsKept cat' s t"
      and "visitClass_v3 cat heap (fileName file) x s = Some (Inr s')"
    then show "\<exists>t'. visitClass_v3 cat' heap (fileName file) x t = Some (Inr t')
                 \<and> recordsKept cat' s' t'"
      by (rule visitClass_v3_simulation [OF sub])
  qed
  with False
  show ?thesis by (simp add: visitFile_v3_def)
qed

lemma superset_catalog_simulation:
  assumes sub: "set (LIFECYCLE_METHOD_NAME cat) \<subseteq> set (LIFECYCLE_METHOD_NAME cat')"
      "set (COMPONENT_LIFECYCLE_METHOD_NAME cat)
         \<subseteq> set (COMPONENT_LIFECYCLE_METHOD_NAME cat')"
    and i: "identifyLifecycleMethods_v3 cat sc (newAnalyzer_v3 cat) = Some (Inr st)"
  shows "\<exists>st'. identifyLifecycleMethods_v3 cat' sc (newAnalyzer_v3 cat') = Some (Inr st')
           \<and> subseq (lifecycleMethods_v3 st) (lifecycleMethods_v3 st')
           \<and> length (lifecycleMethods_v3 st) \<le> length (lifecycleMethods_v3 st')
           \<and> lifecycleMethodCount_v3 (stats_v3 st) \<le> lifecycleMethodCount_v3 (stats_v3 st')"
proof -
  define start where "start = (\<lambda>ct. (newAnalyzer_v3 ct)\<lparr>stats_v3 := (stats_v3 (newAnalyzer_v3 ct))
      \<lparr>totalFiles_v3 := length (sceneFiles sc)\<rparr>\<rparr>)"
  have idf: "identifyLifecycleMethods_v3 ct sc (newAnalyzer_v3 ct) =
      (case foldR (visitFile_v3 ct (sceneClass sc)) (sceneFiles sc) (start ct) of
         None \<Rightarrow> None | Some (Inl e) \<Rightarrow> Some (Inl e)
       | Some (Inr st') \<Rightarrow> Some (Inr (setLifecycleCount_v3 st')))" for ct
    unfolding identifyLifecycleMethods_v3_def start_def ..
  from i obtain s1 where
    f: "foldR (visitFile_v3 cat (sceneClass sc)) (sceneFiles sc) (start cat) = Some (Inr s1)"
    and st: "st = setLifecycleCount_v3 s1"
    unfolding idf by (auto split: option.splits sum.splits)
  have r0: "recordsKept cat' (start cat) (start cat')"
    by (auto simp: recordsKept_def keysOk_def start_def newAnalyzer_v3_def
        initializeTable_apply dom_def)
  have "\<exists>t'. foldR (visitFile_v3 cat' (sceneClass sc)) (sceneFiles sc) (start cat')
               = Some (Inr t') \<and> recordsKept cat' s1 t'"
  proof (rule foldR_simulation [where R = "recordsKept cat'", OF _ r0 f])
    fix x s t s'
    assume "recordsKept cat' s t"
      and "visitFile_v3 cat (sceneClass sc) x s = Some (Inr s')"
    then show "\<exists>t'. visitFile_v3 cat' (sceneClass sc) x t = Some (Inr t')
                 \<and> recordsKept cat' s' t'"
      by (rule visitFile_v3_simulation [OF sub])
  qed
  then
  obtain t1 where t1: "foldR (visitFile_v3 cat' (sceneClass sc)) (sceneFiles sc) (start cat')
      = Some (Inr t1)" and k: "recordsKept cat' s1 t1" by blast
  from k have ss: "subseq (lifecycleMethods_v3 s1) (lifecycleMethods_v3 t1)"
    by (simp add: recordsKept_def)
  then have len: "length (lifecycleMethods_v3 s1) \<le> length (lifecycleMethods_v3 t1)"
    by (rule list_emb_length)
  show ?thesis unfolding idf t1 st using ss len
    by (simp add: setLifecycleCount_v3_def)
qed

lemma fold_foldE_simulation:
  assumes step: "\<And>x s t. x \<in> set xs \<Longrightarrow> R s t \<Longrightarrow> \<exists>t'. g x t = Inr t' \<and> R (f x s) t'"
    and "R s t"
  shows "\<exists>t'. foldE g xs t = Inr t' \<and> R (fold f xs s) t'"
  using assms
proof (induction xs arbitrary: s t)
  case Nil
  then show ?case by simp
next
  case (Cons x xs)
  from Cons.prems(1) [of x s t] Cons.prems(2) obtain t1 where
    t1: "g x t = Inr t1" "R (f x s) t1" by auto
  have "\<exists>t'. foldE g xs t1 = Inr t' \<and> R (fold f xs (f x s)) t'"
    by (rule Cons.IH [OF _ t1(2)]) (rule Cons.prems(1), simp_all)
  with t1(1) show ?case by simp
qed

lemma foldO_foldR_simulation:
  assumes step: "\<And>x s t s'. x \<in> set xs \<Longrightarrow> R s t \<Longrightarrow> f x s = Some s' \<Longrightarrow>
      \<exists>t'. g x t = Some (Inr t') \<and> R s' t'"
    and "R s t" and "foldO f xs s = Some s'"
  shows "\<exists>t'. foldR g xs t = Some (Inr t') \<and> R s' t'"
  using assms
proof (induction xs arbitrary: s t)
  case Nil
  then show ?case by simp
next
  case (Cons x xs)
  from Cons.prems(3) obtain s1 where 1: "f x s = Some s1" and 2: "foldO f xs s1 = Some s'"
    by (auto split: option.splits)
  from Cons.prems(1) [of x s t s1] Cons.prems(2) 1 obtain t1 where
    t1: "g x t = Some (Inr t1)" "R s1 t1" by auto
  have "\<exists>t'. foldR g xs t1 = Some (Inr t') \<and> R s' t'"
    by (rule Cons.IH [OF _ t1(2) 2]) (rule Cons.prems(1), simp_all)
  with t1(1) show ?case by simp
qed

lemma ancestorWalk_larger_base:
  assumes "ancestorWalk heap base superCls = Some b" and "set base \<subseteq> set base'"
  shows "\<exists>b'. ancestorWalk heap base' superCls = Some b' \<and> (b \<longrightarrow> b')"
proof -
  have "\<forall>base'. set base \<subseteq> set base' \<longrightarrow>
          (\<exists>b'. ancestorWalk heap base' superCls = Some b' \<and> (b \<longrightarrow> b'))"
  proof (rule ancestorWalk.raw_induct
      [where P = "\<lambda>h bs sc b. \<forall>base'. set bs \<subseteq> set base' \<longrightarrow>
          (\<exists>b'. ancestorWalk h base' sc = Some b' \<and> (b \<longrightarrow> b'))", OF _ assms(1)])
    fix walk h bs sc and y :: bool
    assume IH: "\<And>h bs sc y. walk h bs sc = Some y \<Longrightarrow>
        \<forall>base'. set bs \<subseteq> set base' \<longrightarrow>
          (\<exists>b'. ancestorWalk h base' sc = Some b' \<and> (y \<longrightarrow> b'))"
      and body: "(case sc of None \<Rightarrow> Some False
                | Some c \<Rightarrow> if superClassName (h c) \<in> set bs then Some True
                            else walk h bs (superClass (h c))) = Some y"
    show "\<forall>base'. set bs \<subseteq> set base' \<longrightarrow>
          (\<exists>b'. ancestorWalk h base' sc = Some b' \<and> (y \<longrightarrow> b'))"
    proof (intro allI impI)
      fix base'
      assume sub: "set bs \<subseteq> set base'"
      show "\<exists>b'. ancestorWalk h base' sc = Some b' \<and> (y \<longrightarrow> b')"
      proof (cases sc)
        case None
        with body show ?thesis by (subst ancestorWalk.simps) auto
      next
        case (Some c)
        show ?thesis
        proof (cases "superClassName (h c) \<in> set bs")
          case True
          with sub Some show ?thesis by (subst ancestorWalk.simps) auto
        next
          case False
          with body Some have "walk h bs (superClass (h c)) = Some y" by simp
          from IH [OF this] sub obtain b' where
            "ancestorWalk h base' (superClass (h c)) = Some b'" "y \<longrightarrow> b'" by blast
          with Some show ?thesis by (subst ancestorWalk.simps) auto
        qed
      qed
    qed
  qed
  with assms(2) show ?thesis by blast
qed

lemma isAbilityClass_v3_of_v1:
  assumes "isAbilityClass heap cls = Some a"
  shows "\<exists>a'. isAbilityClass_v3 heap cls = Some a' \<and> (a \<longrightarrow> a')"
proof -
  have sub: "set ABILITY_BASE \<subseteq> set ABILITY_BASE_v3"
    by (simp add: ABILITY_BASE_def ABILITY_BASE_v3_def)
  show ?thesis
  proof (cases "superClassName cls \<in> set ABILITY_BASE")
    case True
    with sub show ?thesis
      by (auto simp: isAbilityClass_v3_def isAbilityClassWith_def)
  next
    case False
    with assms have "ancestorWalk heap ABILITY_BASE (superClass cls) = Some a"
      by (simp add: isAbilityClass_def isAbilityClassWith_def)
    from ancestorWalk_larger_base [OF this sub] show ?thesis
      by (auto simp: isAbilityClass_v3_def isAbilityClassWith_def)
  qed
qed

lemma isComponentClass_v3_of_v1: "isComponentClass cls \<Longrightarrow> isComponentClass_v3 cls"
  by (simp add: isComponentClass_def isComponentClass_v3_def split: if_splits)

lemma truncate_lifecycleRecord_v3:
  "lifecycle_method.truncate (lifecycleRecord_v3 ty fName clsName m) =
     lifecycleRecord ty fName clsName m"
  by (simp add: lifecycle_method.truncate_def lifecycleRecord_v3_def lifecycleRecord_def)

lemma filter_scanned_record:
  "filter scannedClass_v3 (if p then [lifecycleRecord ty fName clsName m] else []) =
     (if p \<and> \<not> skipsClass_v3 clsName then [lifecycleRecord ty fName clsName m] else [])"
  by (simp add: scannedClass_v3_def lifecycleRecord_def)

lemma visitMethod_version_swap:
  assumes sub: "set ABILITY_LIFECYCLE \<subseteq> set (LIFECYCLE_METHOD_NAME cat)"
      "set COMPONENT_LIFECYCLE \<subseteq> set (COMPONENT_LIFECYCLE_METHOD_NAME cat)"
    and flags: "a \<longrightarrow> a'" "b \<longrightarrow> b'"
    and r: "recordsFound cat s t"
  shows "\<exists>t'. visitMethod_v3 cat fName clsName a' b' m t = Inr t'
            \<and> recordsFound cat (visitMethod fName clsName a b m s) t'"
proof -
  from r have k: "keysOk cat t" by (simp add: recordsFound_def)
  from visitMethod_v3_total [OF k, of fName clsName a' b' m] obtain t' where
    t': "visitMethod_v3 cat fName clsName a' b' m t = Inr t'" "keysOk cat t'" by blast
  have e1: "subseq
      (if (a \<and> methodName m \<in> set ABILITY_LIFECYCLE) \<and> \<not> skipsClass_v3 clsName
        then [lifecycleRecord ABILITY fName clsName m] else [])
      (map lifecycle_method.truncate
        (if a' \<and> methodName m \<in> set (LIFECYCLE_METHOD_NAME cat)
         then [lifecycleRecord_v3 ABILITY fName clsName m] else []))"
    using sub(1) flags(1) by (auto simp: truncate_lifecycleRecord_v3)
  have e2: "subseq
      (if (b \<and> methodName m \<in> set COMPONENT_LIFECYCLE) \<and> \<not> skipsClass_v3 clsName
        then [lifecycleRecord COMPONENT fName clsName m] else [])
      (map lifecycle_method.truncate
        (if b' \<and> methodName m \<in> set (COMPONENT_LIFECYCLE_METHOD_NAME cat)
         then [lifecycleRecord_v3 COMPONENT fName clsName m] else []))"
    using sub(2) flags(2) by (auto simp: truncate_lifecycleRecord_v3)
  from r have e0: "subseq (filter scannedClass_v3 (lifecycleMethods s))
      (map lifecycle_method.truncate (lifecycleMethods_v3 t))"
    by (simp add: recordsFound_def)
  have "subseq (filter scannedClass_v3 (lifecycleMethods (visitMethod fName clsName a b m s)))
      (map lifecycle_method.truncate (lifecycleMethods_v3 t'))"
    unfolding visitMethod_records visitMethod_v3_records [OF t'(1)] map_append filter_append
      filter_scanned_record
    by (intro list_emb_append_mono e0 e1 e2)
  with t' show ?thesis by (auto simp: recordsFound_def)
qed

lemma fold_visitMethod_skipped:
  assumes "skipsClass_v3 clsName"
  shows "filter scannedClass_v3 (lifecycleMethods (fold (visitMethod fName clsName a b) ms s))
     = filter scannedClass_v3 (lifecycleMethods s)"
proof (induction ms arbitrary: s)
  case Nil
  show ?case by simp
next
  case (Cons m ms)
  show ?case using assms
    by (simp add: Cons.IH visitMethod_records filter_scanned_record)
qed

lemma visitClass_version_swap:
  assumes sub: "set ABILITY_LIFECYCLE \<subseteq> set (LIFECYCLE_METHOD_NAME cat)"
      "set COMPONENT_LIFECYCLE \<subseteq> set (COMPONENT_LIFECYCLE_METHOD_NAME cat)"
    and r: "recordsFound cat s t"
    and v: "visitClass heap fName c s = Some s'"
  shows "\<exists>t'. visitClass_v3 cat heap fName c t = Some (Inr t') \<and> recordsFound cat s' t'"
proof (cases "skipsClass_v3 (className (heap c))")
  case True
  then have t: "visitClass_v3 cat heap fName c t = Some (Inr t)"
    by (simp add: visitClass_v3_def)
  show ?thesis
  proof (cases "skipsClass (className (heap c))")
    case True
    with v r t show ?thesis by (simp add: visitClass_def)
  next
    case False
    with v obtain a where
      s': "s' = fold (visitMethod fName (className (heap c)) a (isComponentClass (heap c)))
          (classMethods (heap c)) s"
      by (auto simp: visitClass_def Let_def split: option.splits)
    from r have "recordsFound cat s' t"
      unfolding s' recordsFound_def fold_visitMethod_skipped [OF True] .
    with t show ?thesis by simp
  qed
next
  case False
  then have n1: "\<not> skipsClass (className (heap c))"
    by (simp add: skipsClass_def skipsClass_v3_def)
  note n3 = False
  define pre where "pre = (\<lambda>a (st :: analyzer_v3). countClass_v3 a (isComponentClass_v3 (heap c))
             (st\<lparr>stats_v3 := (stats_v3 st)
                \<lparr>totalClasses_v3 := totalClasses_v3 (stats_v3 st) + 1\<rparr>\<rparr>))"
  have vc: "visitClass_v3 cat heap fName c st =
      (case isAbilityClass_v3 heap (heap c) of None \<Rightarrow> None
       | Some a \<Rightarrow> Some (foldE (visitMethod_v3 cat fName (className (heap c)) a
             (isComponentClass_v3 (heap c))) (classMethods (heap c)) (pre a st)))" for st
    using n3 unfolding visitClass_v3_def Let_def pre_def by simp
  from v n1 obtain a where a: "isAbilityClass heap (heap c) = Some a"
    and s': "s' = fold (visitMethod fName (className (heap c)) a (isComponentClass (heap c)))
          (classMethods (heap c)) s"
    by (auto simp: visitClass_def Let_def split: option.splits)
  from isAbilityClass_v3_of_v1 [OF a] obtain a' where
    a': "isAbilityClass_v3 heap (heap c) = Some a'" "a \<longrightarrow> a'" by blast
  have b': "isComponentClass (heap c) \<longrightarrow> isComponentClass_v3 (heap c)"
    by (simp add: isComponentClass_v3_of_v1)
  from r have r0: "recordsFound cat s (pre a' t)"
    by (simp add: recordsFound_def keysOk_def pre_def countClass_v3_def Let_def)
  have "\<exists>t'. foldE (visitMethod_v3 cat fName (className (heap c)) a'
               (isComponentClass_v3 (heap c))) (classMethods (heap c)) (pre a' t) = Inr t'
             \<and> recordsFound cat
                 (fold (visitMethod fName (className (heap c)) a (isComponentClass (heap c)))
                    (classMethods (heap c)) s) t'"
  proof (rule fold_foldE_simulation [where R = "recordsFound cat", OF _ r0])
    fix x s t
    assume "recordsFound cat s t"
    then show "\<exists>t'. visitMethod_v3 cat fName (className (heap c)) a'
                     (isComponentClass_v3 (heap c)) x t = Inr t'
             \<and> recordsFound cat
                 (visitMethod fName (className (heap c)) a (isComponentClass (heap c)) x s) t'"
      by (rule visitMethod_version_swap [OF sub a'(2) b'])
  qed
  then show ?thesis unfolding vc a'(1) s' by simp
qed

lemma visitFile_version_swap:
  assumes sub: "set ABILITY_LIFECYCLE \<subseteq> set (LIFECYCLE_METHOD_NAME cat)"
      "set COMPONENT_LIFECYCLE \<subseteq> set (COMPONENT_LIFECYCLE_METHOD_NAME cat)"
    and r: "recordsFound cat s t"
    and v: "visitFile heap file s = Some s'"
  shows "\<exists>t'. visitFile_v3 cat heap file t = Some (Inr t') \<and> recordsFound cat s' t'"
proof (cases "isTestFile (fileName file)")
  case True
  with v r show ?thesis by (simp add: visitFile_def visitFile_v3_def)
next
  case False
  with v have f: "foldO (visitClass heap (fileName file)) (fileClasses file) s = Some s'"
    by (simp add: visitFile_def)
  have "\<exists>t'. foldR (visitClass_v3 cat heap (fileName file)) (fileClasses file) t
               = Some (Inr t') \<and> recordsFound cat s' t'"
  proof (rule foldO_foldR_simulation [where R = "recordsFound cat", OF _ r f])
    fix x s t s'
    assume "recordsFound cat s t"
      and "visitClass heap (fileName file) x s = Some s'"
    then show "\<exists>t'. visitClass_v3 cat heap (fileName file) x t = Some (Inr t')
                 \<and> recordsFound cat s' t'"
      by (rule visitClass_version_swap [OF sub])
  qed
  with False show ?thesis by (simp add: visitFile_v3_def)
qed

lemma version_swap_keeps_records:
  assumes sub: "set ABILITY_LIFECYCLE \<subseteq> set (LIFECYCLE_METHOD_NAME cat)"
      "set COMPONENT_LIFECYCLE \<subseteq> set (COMPONENT_LIFECYCLE_METHOD_NAME cat)"
    and i: "identifyLifecycleMethods sc newAnalyzer = Some st"
  shows "\<exists>st'. identifyLifecycleMethods_v3 cat sc (newAnalyzer_v3 cat) = Some (Inr st')
           \<and> subseq (filter scannedClass_v3 (lifecycleMethods st))
                (map lifecycle_method.truncate (lifecycleMethods_v3 st'))
           \<and> length (filter scannedClass_v3 (lifecycleMethods st))
                \<le> length (lifecycleMethods_v3 st')
           \<and> ((\<forall>r \<in> set (lifecycleMethods st). scannedClass_v3 r) \<longrightarrow>
                subseq (lifecycleMethods st)
                  (map lifecycle_method.truncate (lifecycleMethods_v3 st'))
                \<and> length (lifecycleMethods st) \<le> length (lifecycleMethods_v3 st'))"
proof -
  define start where "start = newAnalyzer\<lparr>stats := (stats newAnalyzer)
      \<lparr>totalFiles := length (sceneFiles sc)\<rparr>\<rparr>"
  define start' where "start' = (newAnalyzer_v3 cat)\<lparr>stats_v3 := (stats_v3 (newAnalyzer_v3 cat))
      \<lparr>totalFiles_v3 := length (sceneFiles sc)\<rparr>\<rparr>"
  have idf: "identifyLifecycleMethods_v3 cat sc (newAnalyzer_v3 cat) =
      (case foldR (visitFile_v3 cat (sceneClass sc)) (sceneFiles sc) start' of
         None \<Rightarrow> None | Some (Inl e) \<Rightarrow> Some (Inl e)
       | Some (Inr st') \<Rightarrow> Some (Inr (setLifecycleCount_v3 st')))"
    unfolding identifyLifecycleMethods_v3_def start'_def ..
  from i obtain s1 where
    f: "foldO (visitFile (sceneClass sc)) (sceneFiles sc) start = Some s1"
    and st: "lifecycleMethods st = lifecycleMethods s1"
    unfolding identifyLifecycleMethods_def start_def by (auto split: option.splits)
  have r0: "recordsFound cat start start'"
    by (auto simp: recordsFound_def keysOk_def start_def start'_def newAnalyzer_def
        newAnalyzer_v3_def initializeTable_apply dom_def)
  have "\<exists>t'. foldR (visitFile_v3 cat (sceneClass sc)) (sceneFiles sc) start'
               = Some (Inr t') \<and> recordsFound cat s1 t'"
  proof (rule foldO_foldR_simulation [where R = "recordsFound cat", OF _ r0 f])
    fix x s t s'
    assume "recordsFound cat s t"
      and "visitFile (sceneClass sc) x s = Some s'"
    then show "\<exists>t'. visitFile_v3 cat (sceneClass sc) x t = Some (Inr t')
                 \<and> recordsFound cat s' t'"
      by (rule visitFile_version_swap [OF sub])
  qed
  then obtain t1 where t1: "foldR (visitFile_v3 cat (sceneClass sc)) (sceneFiles sc) start'
      = Some (Inr t1)" and k: "recordsFound cat s1 t1" by blast
  from k have ss: "subseq (filter scannedClass_v3 (lifecycleMethods s1))
      (map lifecycle_method.truncate (lifecycleMethods_v3 t1))"
    by (simp add: recordsFound_def)
  from list_emb_length [OF ss]
  have len: "length (filter scannedClass_v3 (lifecycleMethods s1))
      \<le> length (lifecycleMethods_v3 t1)" by simp
  have all: "filter scannedClass_v3 (lifecycleMethods s1) = lifecycleMethods s1"
    if "\<forall>r \<in> set (lifecycleMethods s1). scannedClass_v3 r"
    using that by (simp add: filter_id_conv)
  show ?thesis unfolding idf t1 st using ss len all
    by (auto simp: setLifecycleCount_v3_def)
qed

text \<open>
  C8, as the claim states it for the swap of analyzer versions, fails: version 1 finds the
  \<^verbatim>\<open>onCreate\<close> of an anonymous ability class, and version 3, with the larger catalog,
  skips the class and finds nothing.
\<close>

theorem version_swap_loses_record:
  "map_option (\<lambda>st. length (lifecycleMethods st))
     (identifyLifecycleMethods anonymousScene newAnalyzer) = Some 1
   \<and> map_option (map_sum id (\<lambda>st. length (lifecycleMethods_v3 st)))
       (identifyLifecycleMethods_v3 docCatalog anonymousScene (newAnalyzer_v3 docCatalog))
       = Some (Inr 0)"
  by (simp add: identifyLifecycleMethods_def visitFile_def isTestFile_def startsWith_def
      visitClass_def skipsClass_def isAbilityClass_def isAbilityClassWith_def
      ABILITY_BASE_def ancestorWalk.simps isComponentClass_def COMPONENT_BASE_def
      hasDecorator_def visitMethod_def ABILITY_LIFECYCLE_def COMPONENT_LIFECYCLE_def
      newAnalyzer_def onCreateMethod_def aboutToAppearMethod_def
      identifyLifecycleMethods_v3_def visitFile_v3_def visitClass_v3_def skipsClass_v3_def
      isAbilityClass_v3_def ABILITY_BASE_v3_def isComponentClass_v3_def visitMethod_v3_def
      recordAbility_v3_def recordComponent_v3_def recordUsage_v3_def newAnalyzer_v3_def
      initializeTable_apply countClass_v3_def anonymousScene_def anonymousHeap_def
      docCatalog_def
      setLifecycleCount_v3_def)

text \<open>
  C8, amended. A superset catalog never loses a record of a class that is still scanned.
  In version 3, a run whose Ability and Component catalogs contain those of another run
  returns whenever that run did and finds all its records, in the same order. Across the
  swap from version 1 to version 3 with a catalog that contains the lists of version 1,
  on every scene on which version 1 returns, version 3 returns and finds, in order, every
  record of version 1 whose class version 3 does not skip (a version 3 record carries
  the method, type, phase, class and file of the version 1 record); version 3 skips, in
  addition, the classes whose name contains \<^verbatim>\<open>%AC\<close> or \<^verbatim>\<open>%dflt\<close>. So
  the number of records does not decrease when no record of version 1 belongs to such a
  class.
\<close>

theorem catalog_swap_keeps_records:
  "(set (LIFECYCLE_METHOD_NAME cat) \<subseteq> set (LIFECYCLE_METHOD_NAME cat') \<longrightarrow>
    set (COMPONENT_LIFECYCLE_METHOD_NAME cat) \<subseteq> set (COMPONENT_LIFECYCLE_METHOD_NAME cat') \<longrightarrow>
    identifyLifecycleMethods_v3 cat sc (newAnalyzer_v3 cat) = Some (Inr stV) \<longrightarrow>
      (\<exists>stV'. identifyLifecycleMethods_v3 cat' sc (newAnalyzer_v3 cat') = Some (Inr stV')
         \<and> subseq (lifecycleMethods_v3 stV) (lifecycleMethods_v3 stV')
         \<and> length (lifecycleMethods_v3 stV) \<le> length (lifecycleMethods_v3 stV')
         \<and> lifecycleMethodCount_v3 (stats_v3 stV) \<le> lifecycleMethodCount_v3 (stats_v3 stV')))
   \<and> (set ABILITY_LIFECYCLE \<subseteq> set (LIFECYCLE_METHOD_NAME cat') \<longrightarrow>
      set COMPONENT_LIFECYCLE \<subseteq> set (COMPONENT_LIFECYCLE_METHOD_NAME cat') \<longrightarrow>
      identifyLifecycleMethods sc newAnalyzer = Some st \<longrightarrow>
        (\<exists>stV'. identifyLifecycleMethods_v3 cat' sc (newAnalyzer_v3 cat') = Some (Inr stV')
           \<and> subseq (filter scannedClass_v3 (lifecycleMethods st))
                (map lifecycle_method.truncate (lifecycleMethods_v3 stV'))
           \<and> length (filter scannedClass_v3 (lifecycleMethods st))
                \<le> length (lifecycleMethods_v3 stV')
           \<and> ((\<forall>r \<in> set (lifecycleMethods st). scannedClass_v3 r) \<longrightarrow>
                subseq (lifecycleMethods st)
                  (map lifecycle_method.truncate (lifecycleMethods_v3 stV'))
                \<and> length (lifecycleMethods st) \<le> length (lifecycleMethods_v3 stV'))))"
  using superset_catalog_simulation [of cat cat' sc stV]
    version_swap_keeps_records [of cat' sc st]
  by blast

theorem catalog_swap_keeps_records_witness:
  "(\<exists>stV stV'.
      identifyLifecycleMethods_v3 minimalCatalog abilityScene (newAnalyzer_v3 minimalCatalog)
        = Some (Inr stV)
      \<and> identifyLifecycleMethods_v3 docCatalog abilityScene (newAnalyzer_v3 docCatalog)
        = Some (Inr stV')
      \<and> map lmPhase (lifecycleMethods_v3 stV) = [''onCreate'']
      \<and> subseq (lifecycleMethods_v3 stV) (lifecycleMethods_v3 stV'))
   \<and> (\<exists>st stV'.
        identifyLifecycleMethods abilityScene newAnalyzer = Some st
        \<and> identifyLifecycleMethods_v3 docCatalog abilityScene (newAnalyzer_v3 docCatalog)
          = Some (Inr stV')
        \<and> map lmPhase (lifecycleMethods st) = [''onCreate'']
        \<and> subseq (lifecycleMethods st)
             (map lifecycle_method.truncate (lifecycleMethods_v3 stV')))
   \<and> (\<exists>st stV'.
        identifyLifecycleMethods mixedScene newAnalyzer = Some st
        \<and> identifyLifecycleMethods_v3 docCatalog mixedScene (newAnalyzer_v3 docCatalog)
          = Some (Inr stV')
        \<and> map lmClassName (lifecycleMethods st) = [''EntryAbility'', ''%AC0'']
        \<and> map lmClassName (filter scannedClass_v3 (lifecycleMethods st)) = [''EntryAbility'']
        \<and> subseq (filter scannedClass_v3 (lifecycleMethods st))
             (map lifecycle_method.truncate (lifecycleMethods_v3 stV')))"
proof -
  have s1: "set (LIFECYCLE_METHOD_NAME minimalCatalog) \<subseteq> set (LIFECYCLE_METHOD_NAME docCatalog)"
    by (simp add: minimalCatalog_def docCatalog_def ABILITY_LIFECYCLE_def)
  have s2: "set (COMPONENT_LIFECYCLE_METHOD_NAME minimalCatalog)
      \<subseteq> set (COMPONENT_LIFECYCLE_METHOD_NAME docCatalog)"
    by (simp add: minimalCatalog_def docCatalog_def COMPONENT_LIFECYCLE_def)
  have s3: "set ABILITY_LIFECYCLE \<subseteq> set (LIFECYCLE_METHOD_NAME docCatalog)"
    by (simp add: docCatalog_def ABILITY_LIFECYCLE_def)
  have s4: "set COMPONENT_LIFECYCLE \<subseteq> set (COMPONENT_LIFECYCLE_METHOD_NAME docCatalog)"
    by (simp add: docCatalog_def COMPONENT_LIFECYCLE_def)
  obtain stV where i: "identifyLifecycleMethods_v3 minimalCatalog abilityScene
      (newAnalyzer_v3 minimalCatalog) = Some (Inr stV)"
    and r: "map lmPhase (lifecycleMethods_v3 stV) = [''onCreate'']"
    by (simp add: identifyLifecycleMethods_v3_def visitFile_v3_def isTestFile_def
        startsWith_def visitClass_v3_def skipsClass_v3_def isAbilityClass_v3_def
        isAbilityClassWith_def ABILITY_BASE_v3_def ancestorWalk.simps
        isComponentClass_v3_def COMPONENT_BASE_def hasDecorator_def visitMethod_v3_def
        recordAbility_v3_def recordComponent_v3_def recordUsage_v3_def newAnalyzer_v3_def
        initializeTable_apply countClass_v3_def ABILITY_LIFECYCLE_def
        COMPONENT_LIFECYCLE_def onCreateMethod_def aboutToAppearMethod_def
        minimalCatalog_def abilityScene_def abilityHeap_def onShareMethod_def
        setLifecycleCount_v3_def lifecycleRecord_v3_def)
  obtain st where j: "identifyLifecycleMethods abilityScene newAnalyzer = Some st"
    and q: "map lmPhase (lifecycleMethods st) = [''onCreate'']"
    and qc: "\<forall>r \<in> set (lifecycleMethods st). scannedClass_v3 r"
    by (simp add: identifyLifecycleMethods_def visitFile_def isTestFile_def startsWith_def
        visitClass_def skipsClass_def isAbilityClass_def isAbilityClassWith_def
        ABILITY_BASE_def ancestorWalk.simps isComponentClass_def COMPONENT_BASE_def
        hasDecorator_def visitMethod_def ABILITY_LIFECYCLE_def COMPONENT_LIFECYCLE_def
        newAnalyzer_def onCreateMethod_def aboutToAppearMethod_def abilityScene_def
        abilityHeap_def onShareMethod_def
        lifecycleRecord_def scannedClass_v3_def skipsClass_v3_def)
  obtain stM where m: "identifyLifecycleMethods mixedScene newAnalyzer = Some stM"
    and mc: "map lmClassName (lifecycleMethods stM) = [''EntryAbility'', ''%AC0'']"
    and mf: "map lmClassName (filter scannedClass_v3 (lifecycleMethods stM))
        = [''EntryAbility'']"
    by (simp add: identifyLifecycleMethods_def visitFile_def isTestFile_def startsWith_def
        visitClass_def skipsClass_def isAbilityClass_def isAbilityClassWith_def
        ABILITY_BASE_def ancestorWalk.simps isComponentClass_def COMPONENT_BASE_def
        hasDecorator_def visitMethod_def ABILITY_LIFECYCLE_def COMPONENT_LIFECYCLE_def
        newAnalyzer_def onCreateMethod_def aboutToAppearMethod_def mixedScene_def
        mixedHeap_def onShareMethod_def
        lifecycleRecord_def scannedClass_v3_def skipsClass_v3_def)
  note swap = catalog_swap_keeps_records [of minimalCatalog docCatalog abilityScene stV st]
  from swap s1 s2 i obtain stV' where
    "identifyLifecycleMethods_v3 docCatalog abilityScene (newAnalyzer_v3 docCatalog)
       = Some (Inr stV')"
    "subseq (lifecycleMethods_v3 stV) (lifecycleMethods_v3 stV')"
    by blast
  with i r have a: "\<exists>stV stV'.
      identifyLifecycleMethods_v3 minimalCatalog abilityScene (newAnalyzer_v3 minimalCatalog)
        = Some (Inr stV)
      \<and> identifyLifecycleMethods_v3 docCatalog abilityScene (newAnalyzer_v3 docCatalog)
        = Some (Inr stV')
      \<and> map lmPhase (lifecycleMethods_v3 stV) = [''onCreate'']
      \<and> subseq (lifecycleMethods_v3 stV) (lifecycleMethods_v3 stV')"
    by (intro exI conjI)
  from swap s3 s4 j qc obtain stW where
    "identifyLifecycleMethods_v3 docCatalog abilityScene (newAnalyzer_v3 docCatalog)
       = Some (Inr stW)"
    "subseq (lifecycleMethods st) (map lifecycle_method.truncate (lifecycleMethods_v3 stW))"
    by blast
  with j q have b: "\<exists>st stV'.
        identifyLifecycleMethods abilityScene newAnalyzer = Some st
        \<and> identifyLifecycleMethods_v3 docCatalog abilityScene (newAnalyzer_v3 docCatalog)
          = Some (Inr stV')
        \<and> map lmPhase (lifecycleMethods st) = [''onCreate'']
        \<and> subseq (lifecycleMethods st)
             (map lifecycle_method.truncate (lifecycleMethods_v3 stV'))"
    by (intro exI conjI)
  from catalog_swap_keeps_records [of minimalCatalog docCatalog mixedScene stV stM] s3 s4 m
  obtain stX where
    "identifyLifecycleMethods_v3 docCatalog mixedScene (newAnalyzer_v3 docCatalog)
       = Some (Inr stX)"
    "subseq (filter scannedClass_v3 (lifecycleMethods stM))
       (map lifecycle_method.truncate (lifecycleMethods_v3 stX))"
    by blast
  with m mc mf have c: "\<exists>st stV'.
        identifyLifecycleMethods mixedScene newAnalyzer = Some st
        \<and> identifyLifecycleMethods_v3 docCatalog mixedScene (newAnalyzer_v3 docCatalog)
          = Some (Inr stV')
        \<and> map lmClassName (lifecycleMethods st) = [''EntryAbility'', ''%AC0'']
        \<and> map lmClassName (filter scannedClass_v3 (lifecycleMethods st)) = [''EntryAbility'']
        \<and> subseq (filter scannedClass_v3 (lifecycleMethods st))
             (map lifecycle_method.truncate (lifecycleMethods_v3 stV'))"
    by (intro exI conjI)
  from a b c show ?thesis by (intro conjI)
qed

section \<open>Results on test files\<close>

lemma visitMethod_setTotalFiles:
  "visitMethod fName clsName a b m (setTotalFiles n st) =
     setTotalFiles n (visitMethod fName clsName a b m st)"
  by (simp add: visitMethod_def setTotalFiles_def Let_def)

lemma fold_visitMethod_setTotalFiles:
  "fold (visitMethod fName clsName a b) ms (setTotalFiles n st) =
     setTotalFiles n (fold (visitMethod fName clsName a b) ms st)"
  by (rule fold_commute_update [where u = "setTotalFiles n"])
    (rule visitMethod_setTotalFiles)

lemma visitClass_setTotalFiles:
  "visitClass heap fName c (setTotalFiles n st) =
     map_option (setTotalFiles n) (visitClass heap fName c st)"
  by (simp add: visitClass_def Let_def fold_visitMethod_setTotalFiles split: option.splits)

lemma foldO_visitClass_setTotalFiles:
  "foldO (visitClass heap fName) cs (setTotalFiles n st) =
     map_option (setTotalFiles n) (foldO (visitClass heap fName) cs st)"
  by (rule foldO_commute_update [where u = "setTotalFiles n"])
    (rule visitClass_setTotalFiles)

lemma visitFile_setTotalFiles:
  "visitFile heap file (setTotalFiles n st) =
     map_option (setTotalFiles n) (visitFile heap file st)"
  by (simp add: visitFile_def foldO_visitClass_setTotalFiles)

lemma identify_skips:
  "identifyLifecycleMethods sc st =
     map_option (setTotalFiles (length (sceneFiles sc)))
       (identifyLifecycleMethods (withoutTestFiles sc) st)"
proof -
  let ?keep = "\<lambda>file. \<not> isTestFile (fileName file)"
  let ?n = "length (sceneFiles sc)"
  let ?m = "length (filter ?keep (sceneFiles sc))"
  have 1: "foldO (visitFile (sceneClass sc)) (sceneFiles sc) (setTotalFiles ?n st)
      = foldO (visitFile (sceneClass sc)) (filter ?keep (sceneFiles sc))
          (setTotalFiles ?n (setTotalFiles ?m st))"
    by (subst foldO_skip) (simp_all add: visitFile_def setTotalFiles_def)
  have 2: "\<dots> = map_option (setTotalFiles ?n)
      (foldO (visitFile (sceneClass sc)) (filter ?keep (sceneFiles sc))
         (setTotalFiles ?m st))"
    by (rule foldO_commute_update [where u = "setTotalFiles ?n"])
      (rule visitFile_setTotalFiles)
  show ?thesis
    unfolding identifyLifecycleMethods_def withoutTestFiles_def
    using 1 2
    by (auto simp: setTotalFiles_def split: option.splits)
qed

lemma identify_v2_skips:
  "identifyLifecycleMethods_v2 cat sc st =
     identifyLifecycleMethods_v2 cat (withoutTestFiles sc) st"
  unfolding identifyLifecycleMethods_v2_def withoutTestFiles_def
  by (simp add: foldR_skip visitFile_v2_def)

lemma recordAbility_v3_setTotalFiles:
  "recordAbility_v3 fName clsName m (setTotalFiles_v3 n st) =
     map_sum id (setTotalFiles_v3 n) (recordAbility_v3 fName clsName m st)"
  by (simp add: recordAbility_v3_def setTotalFiles_v3_def Let_def split: sum.splits)

lemma recordComponent_v3_setTotalFiles:
  "recordComponent_v3 fName clsName m (setTotalFiles_v3 n st) =
     map_sum id (setTotalFiles_v3 n) (recordComponent_v3 fName clsName m st)"
  by (simp add: recordComponent_v3_def setTotalFiles_v3_def Let_def split: sum.splits)

lemma countMethod_setTotalFiles:
  "(setTotalFiles_v3 n st)\<lparr>stats_v3 := (stats_v3 (setTotalFiles_v3 n st))
       \<lparr>totalMethods_v3 := totalMethods_v3 (stats_v3 (setTotalFiles_v3 n st)) + 1\<rparr>\<rparr>
   = setTotalFiles_v3 n (st\<lparr>stats_v3 := (stats_v3 st)
       \<lparr>totalMethods_v3 := totalMethods_v3 (stats_v3 st) + 1\<rparr>\<rparr>)"
  by (simp add: setTotalFiles_v3_def)

lemma visitMethod_v3_setTotalFiles:
  "visitMethod_v3 cat fName clsName a b m (setTotalFiles_v3 n st) =
     map_sum id (setTotalFiles_v3 n) (visitMethod_v3 cat fName clsName a b m st)"
  unfolding visitMethod_v3_def Let_def countMethod_setTotalFiles
  by (auto simp: recordAbility_v3_setTotalFiles recordComponent_v3_setTotalFiles
      split: sum.splits)

lemma foldE_visitMethod_v3_setTotalFiles:
  "foldE (visitMethod_v3 cat fName clsName a b) ms (setTotalFiles_v3 n st) =
     map_sum id (setTotalFiles_v3 n) (foldE (visitMethod_v3 cat fName clsName a b) ms st)"
  by (rule foldE_commute_update [where u = "setTotalFiles_v3 n"])
    (rule visitMethod_v3_setTotalFiles)

lemma countClass_setTotalFiles:
  "countClass_v3 a b ((setTotalFiles_v3 n st)\<lparr>stats_v3 := (stats_v3 (setTotalFiles_v3 n st))
       \<lparr>totalClasses_v3 := totalClasses_v3 (stats_v3 (setTotalFiles_v3 n st)) + 1\<rparr>\<rparr>)
   = setTotalFiles_v3 n (countClass_v3 a b (st\<lparr>stats_v3 := (stats_v3 st)
       \<lparr>totalClasses_v3 := totalClasses_v3 (stats_v3 st) + 1\<rparr>\<rparr>))"
  by (simp add: setTotalFiles_v3_def countClass_v3_def Let_def)

lemma visitClass_v3_setTotalFiles:
  "visitClass_v3 cat heap fName c (setTotalFiles_v3 n st) =
     map_option (map_sum id (setTotalFiles_v3 n)) (visitClass_v3 cat heap fName c st)"
  unfolding visitClass_v3_def Let_def countClass_setTotalFiles
  by (simp add: foldE_visitMethod_v3_setTotalFiles split: option.splits)

lemma foldR_visitClass_v3_setTotalFiles:
  "foldR (visitClass_v3 cat heap fName) cs (setTotalFiles_v3 n st) =
     map_option (map_sum id (setTotalFiles_v3 n)) (foldR (visitClass_v3 cat heap fName) cs st)"
  by (rule foldR_commute_update [where u = "setTotalFiles_v3 n"])
    (rule visitClass_v3_setTotalFiles)

lemma visitFile_v3_setTotalFiles:
  "visitFile_v3 cat heap file (setTotalFiles_v3 n st) =
     map_option (map_sum id (setTotalFiles_v3 n)) (visitFile_v3 cat heap file st)"
  by (simp add: visitFile_v3_def foldR_visitClass_v3_setTotalFiles)

lemma identify_v3_skips:
  "identifyLifecycleMethods_v3 cat sc st =
     map_option (map_sum id (setTotalFiles_v3 (length (sceneFiles sc))))
       (identifyLifecycleMethods_v3 cat (withoutTestFiles sc) st)"
proof -
  let ?keep = "\<lambda>file. \<not> isTestFile (fileName file)"
  let ?n = "length (sceneFiles sc)"
  let ?m = "length (filter ?keep (sceneFiles sc))"
  have 1: "foldR (visitFile_v3 cat (sceneClass sc)) (sceneFiles sc) (setTotalFiles_v3 ?n st)
      = foldR (visitFile_v3 cat (sceneClass sc)) (filter ?keep (sceneFiles sc))
          (setTotalFiles_v3 ?n (setTotalFiles_v3 ?m st))"
    by (subst foldR_skip) (simp_all add: visitFile_v3_def setTotalFiles_v3_def)
  have 2: "\<dots> = map_option (map_sum id (setTotalFiles_v3 ?n))
      (foldR (visitFile_v3 cat (sceneClass sc)) (filter ?keep (sceneFiles sc))
         (setTotalFiles_v3 ?m st))"
    by (rule foldR_commute_update [where u = "setTotalFiles_v3 ?n"])
      (rule visitFile_v3_setTotalFiles)
  show ?thesis
    unfolding identifyLifecycleMethods_v3_def withoutTestFiles_def
    using 1 2
    by (auto simp: setTotalFiles_v3_def setLifecycleCount_v3_def
        split: option.splits sum.splits)
qed

lemma addIssue_setTotalFiles:
  "addIssue issue (setTotalFiles_oe n st) = setTotalFiles_oe n (addIssue issue st)"
  by (simp add: addIssue_def setTotalFiles_oe_def)

lemma checkStatement_setTotalFiles:
  "checkStatement stmt m c f (setTotalFiles_oe n st) =
     setTotalFiles_oe n (checkStatement stmt m c f st)"
  by (simp add: checkStatement_def Let_def addIssue_setTotalFiles)

lemma analyzeMethod_setTotalFiles:
  "analyzeMethod solve m c f (setTotalFiles_oe n st) =
     setTotalFiles_oe n (analyzeMethod solve m c f st)"
proof -
  have a: "(setTotalFiles_oe n st)\<lparr>stats_oe := (stats_oe (setTotalFiles_oe n st))
         \<lparr>analyzedMethods_oe := analyzedMethods_oe (stats_oe (setTotalFiles_oe n st)) + 1\<rparr>\<rparr>
       = setTotalFiles_oe n (st\<lparr>stats_oe := (stats_oe st)
         \<lparr>analyzedMethods_oe := analyzedMethods_oe (stats_oe st) + 1\<rparr>\<rparr>)"
    by (simp add: setTotalFiles_oe_def)
  have b: "fold (\<lambda>stmt. checkStatement stmt m c f) stmts (setTotalFiles_oe n s) =
      setTotalFiles_oe n (fold (\<lambda>stmt. checkStatement stmt m c f) stmts s)" for stmts s
    by (rule fold_commute_update [where u = "setTotalFiles_oe n"])
      (rule checkStatement_setTotalFiles)
  show ?thesis
    unfolding analyzeMethod_def Let_def a
    by (simp add: b split: option.splits sum.splits)
qed

lemma analyzeClass_setTotalFiles:
  "analyzeClass solve cls f (setTotalFiles_oe n st) =
     setTotalFiles_oe n (analyzeClass solve cls f st)"
proof -
  have a: "(setTotalFiles_oe n st)\<lparr>stats_oe := (stats_oe (setTotalFiles_oe n st))
         \<lparr>totalMethods_oe := totalMethods_oe (stats_oe (setTotalFiles_oe n st))
             + length (classMethods cls)\<rparr>\<rparr>
       = setTotalFiles_oe n (st\<lparr>stats_oe := (stats_oe st)
         \<lparr>totalMethods_oe := totalMethods_oe (stats_oe st) + length (classMethods cls)\<rparr>\<rparr>)"
    by (simp add: setTotalFiles_oe_def)
  have b: "fold (\<lambda>method. analyzeMethod solve method (className cls) f) ms (setTotalFiles_oe n s)
      = setTotalFiles_oe n (fold (\<lambda>method. analyzeMethod solve method (className cls) f) ms s)"
    for ms s
    by (rule fold_commute_update [where u = "setTotalFiles_oe n"])
      (rule analyzeMethod_setTotalFiles)
  show ?thesis
    unfolding analyzeClass_def Let_def a by (simp add: b)
qed

lemma analyzeFile_setTotalFiles:
  "analyzeFile solve heap file (setTotalFiles_oe n st) =
     setTotalFiles_oe n (analyzeFile solve heap file st)"
proof -
  have a: "(setTotalFiles_oe n st)\<lparr>stats_oe := (stats_oe (setTotalFiles_oe n st))
         \<lparr>totalClasses_oe := totalClasses_oe (stats_oe (setTotalFiles_oe n st))
             + length (fileClasses file)\<rparr>\<rparr>
       = setTotalFiles_oe n (st\<lparr>stats_oe := (stats_oe st)
         \<lparr>totalClasses_oe := totalClasses_oe (stats_oe st) + length (fileClasses file)\<rparr>\<rparr>)"
    by (simp add: setTotalFiles_oe_def)
  have b: "fold (\<lambda>c. analyzeClass solve (heap c) (fileName file)) cs (setTotalFiles_oe n s)
      = setTotalFiles_oe n (fold (\<lambda>c. analyzeClass solve (heap c) (fileName file)) cs s)"
    for cs s
    by (rule fold_commute_update [where u = "setTotalFiles_oe n"])
      (rule analyzeClass_setTotalFiles)
  show ?thesis
    unfolding analyzeFile_def Let_def a by (simp add: b)
qed

lemma analyze_skips:
  "analyze solve sc st =
     setTotalFiles_oe (length (sceneFiles sc)) (analyze solve (withoutTestFiles sc) st)"
proof -
  let ?keep = "\<lambda>file. \<not> isTestFile (fileName file)"
  let ?n = "length (sceneFiles sc)"
  let ?m = "length (filter ?keep (sceneFiles sc))"
  have 1: "fold (analyzeFile solve (sceneClass sc)) (sceneFiles sc) (setTotalFiles_oe ?n st)
      = fold (analyzeFile solve (sceneClass sc)) (filter ?keep (sceneFiles sc))
          (setTotalFiles_oe ?n (setTotalFiles_oe ?m st))"
    by (subst fold_skip) (simp_all add: analyzeFile_def setTotalFiles_oe_def)
  have 2: "\<dots> = setTotalFiles_oe ?n
      (fold (analyzeFile solve (sceneClass sc)) (filter ?keep (sceneFiles sc))
         (setTotalFiles_oe ?m st))"
    by (rule fold_commute_update [where u = "setTotalFiles_oe ?n"])
      (rule analyzeFile_setTotalFiles)
  show ?thesis
    unfolding analyze_def withoutTestFiles_def
    using 1 2 by (simp add: setTotalFiles_oe_def)
qed

lemma buildCallGraph_setTotalFiles:
  "buildCallGraph env (setTotalFiles n st) = setTotalFiles n (buildCallGraph env st)"
  by (simp add: buildCallGraph_def setCallGraph_def setTotalFiles_def Let_def split: sum.splits)

lemma analyzeUndefinedVariables_setTotalFiles:
  "analyzeUndefinedVariables solve (setTotalFiles n st) =
     setTotalFiles n (analyzeUndefinedVariables solve st)"
  by (simp add: analyzeUndefinedVariables_def setTotalFiles_def Let_def)

lemma analyzeDataFlow_setTotalFiles:
  "analyzeDataFlow (setTotalFiles n st) = setTotalFiles n (analyzeDataFlow st)"
  by (simp add: analyzeDataFlow_def setTotalFiles_def Let_def split: option.splits)

lemma pipeline_skips:
  "analyzeOpenEyeLifecycle env solve sc =
     map_option (setTotalFiles (length (sceneFiles sc)))
       (analyzeOpenEyeLifecycle env solve (withoutTestFiles sc))"
  unfolding analyzeOpenEyeLifecycle_def
  by (subst identify_skips)
    (simp add: buildCallGraph_setTotalFiles analyzeUndefinedVariables_setTotalFiles
      analyzeDataFlow_setTotalFiles split: option.splits)

lemma buildCallGraph_v3_setTotalFiles:
  "buildCallGraph_v3 env (setTotalFiles_v3 n st) =
     setTotalFiles_v3 n (buildCallGraph_v3 env st)"
  by (simp add: buildCallGraph_v3_def setCallGraph_v3_def setTotalFiles_v3_def Let_def
      split: sum.splits)

lemma analyzeUndefinedVariables_v3_setTotalFiles:
  "analyzeUndefinedVariables_v3 solve (setTotalFiles_v3 n st) =
     setTotalFiles_v3 n (analyzeUndefinedVariables_v3 solve st)"
  by (simp add: analyzeUndefinedVariables_v3_def setTotalFiles_v3_def Let_def)

lemma analyzeDataFlow_v3_setTotalFiles:
  "analyzeDataFlow_v3 (setTotalFiles_v3 n st) =
     setTotalFiles_v3 n (analyzeDataFlow_v3 st)"
  by (simp add: analyzeDataFlow_v3_def setTotalFiles_v3_def Let_def split: option.splits)

lemma pipeline_v3_skips:
  "analyzeOpenEyeLifecycleV3 cat env solve sc =
     map_option (map_sum id (setTotalFiles_v3 (length (sceneFiles sc))))
       (analyzeOpenEyeLifecycleV3 cat env solve (withoutTestFiles sc))"
  unfolding analyzeOpenEyeLifecycleV3_def
  by (subst identify_v3_skips)
    (simp add: buildCallGraph_v3_setTotalFiles analyzeUndefinedVariables_v3_setTotalFiles
      analyzeDataFlow_v3_setTotalFiles split: option.splits sum.splits)

text \<open>
  C9. A file whose name contains \<^verbatim>\<open>test\<close> or \<^verbatim>\<open>Test\<close> is skipped by every analyzer: the
  step for the file leaves the analyzer as it was, so no class of the file is classified
  and nothing is recorded or counted for it. The scans of the four analyzers and the full
  runs of versions 1 and 3 give, on a scene, what they give on the scene without its test
  files, up to the counter of all files of the scene (\<^verbatim>\<open>stats.totalFiles\<close>, which is set
  to the number of files before the loop).
\<close>

theorem test_files_are_skipped:
  "(isTestFile (fileName file) \<longrightarrow>
      visitFile heap file st = Some st
      \<and> visitFile_v2 cat heap file stE = Some (Inr stE)
      \<and> visitFile_v3 cat heap file stV = Some (Inr stV)
      \<and> analyzeFile solveP heap file stP = stP)
   \<and> identifyLifecycleMethods sc st =
       map_option (setTotalFiles (length (sceneFiles sc)))
         (identifyLifecycleMethods (withoutTestFiles sc) st)
   \<and> identifyLifecycleMethods_v2 cat sc stE =
       identifyLifecycleMethods_v2 cat (withoutTestFiles sc) stE
   \<and> identifyLifecycleMethods_v3 cat sc stV =
       map_option (map_sum id (setTotalFiles_v3 (length (sceneFiles sc))))
         (identifyLifecycleMethods_v3 cat (withoutTestFiles sc) stV)
   \<and> analyze solveP sc stP =
       setTotalFiles_oe (length (sceneFiles sc)) (analyze solveP (withoutTestFiles sc) stP)
   \<and> analyzeOpenEyeLifecycle env solve sc =
       map_option (setTotalFiles (length (sceneFiles sc)))
         (analyzeOpenEyeLifecycle env solve (withoutTestFiles sc))
   \<and> analyzeOpenEyeLifecycleV3 cat env solve sc =
       map_option (map_sum id (setTotalFiles_v3 (length (sceneFiles sc))))
         (analyzeOpenEyeLifecycleV3 cat env solve (withoutTestFiles sc))"
  using identify_skips [of sc st] identify_v2_skips [of cat sc stE]
    identify_v3_skips [of cat sc stV] analyze_skips [of solveP sc stP]
    pipeline_skips [of env solve sc] pipeline_v3_skips [of cat env solve sc]
  by (simp add: visitFile_def visitFile_v2_def visitFile_v3_def analyzeFile_def)

theorem test_files_are_skipped_witness:
  "visitFile dualHeap testFile newAnalyzer = Some newAnalyzer
   \<and> withoutTestFiles testScene = dualScene
   \<and> map_option (\<lambda>st. map lmFilePath (lifecycleMethods st))
       (identifyLifecycleMethods testScene newAnalyzer)
       = Some [''EntryView.ets'', ''EntryView.ets'']"
proof -
  have t: "isTestFile (fileName testFile)"
    by (simp add: testFile_def isTestFile_def startsWith_def)
  have w: "withoutTestFiles testScene = dualScene"
    by (simp add: withoutTestFiles_def testScene_def dualScene_def testFile_def isTestFile_def
        startsWith_def)
  have d: "map_option (\<lambda>st. map lmFilePath (lifecycleMethods st))
       (identifyLifecycleMethods dualScene newAnalyzer)
       = Some [''EntryView.ets'', ''EntryView.ets'']"
    by (simp add: identifyLifecycleMethods_def visitFile_def isTestFile_def startsWith_def
        visitClass_def skipsClass_def isAbilityClass_def isAbilityClassWith_def
        ABILITY_BASE_def ancestorWalk.simps isComponentClass_def COMPONENT_BASE_def
        hasDecorator_def visitMethod_def ABILITY_LIFECYCLE_def COMPONENT_LIFECYCLE_def
        newAnalyzer_def onCreateMethod_def aboutToAppearMethod_def dualScene_def
        dualHeap_def lifecycleRecord_def)
  from test_files_are_skipped [of testFile dualHeap newAnalyzer minimalCatalog
      "newAnalyzer_v2 minimalCatalog" "newAnalyzer_v3 minimalCatalog"
      "\<lambda>cfg. Inl SolverError" newAnalyzer_oe testScene quietEnv throwingSolver]
    t w d
  show ?thesis
    by (simp add: option.map_comp comp_def setTotalFiles_def)
qed

end
